theory Spec2Isabelle
  imports Complex_Main
begin

section \<open>LwJSON: data model (lwjson.h)\<close>

text \<open>
  The parser works on NUL-terminated C strings.  A text is the list of its characters
  before the terminator, a cursor \<open>const char*\<close> into it is an index, and reading at or
  after the end gives the terminator.  A pointer that is stored in a token
  (\<open>token_name\<close>, \<open>u.str.token_value\<close>) is kept together with the buffer it points
  into; \<open>None\<close> is the null pointer.
\<close>

definition NUL :: char where
  "NUL = CHR 0x00"

definition chr_at :: "string \<Rightarrow> nat \<Rightarrow> char" where
  "chr_at s i = (if i < length s then s ! i else NUL)"

type_synonym cptr = "string \<times> nat"

datatype lwjson_type =
    LWJSON_TYPE_STRING
  | LWJSON_TYPE_NUM_INT
  | LWJSON_TYPE_NUM_REAL
  | LWJSON_TYPE_OBJECT
  | LWJSON_TYPE_ARRAY
  | LWJSON_TYPE_TRUE
  | LWJSON_TYPE_FALSE
  | LWJSON_TYPE_NULL

datatype lwjsonr = lwjsonOK | lwjsonERR | lwjsonERRJSON | lwjsonERRMEM

text \<open>
  A \<open>lwjson_token_t*\<close> is null (\<open>None\<close>), the address of the instance's own
  \<open>first_token\<close>, or the address of a slot of the caller's token array.
\<close>

datatype tref = First | Slot nat

text \<open>
  \<open>lwjson_token_t\<close>; its members \<open>next\<close>, \<open>parent\<close> and \<open>type\<close> are the fields
  \<open>nxt\<close>, \<open>tparent\<close> and \<open>ttype\<close>.  The code never writes \<open>parent\<close> after the
  \<open>memset\<close>.  The members of the union \<open>u\<close> are separate fields: the code reads
  a member only under the type tag it was written with (\<open>u.first_child\<close> of a container,
  which \<open>memset\<close> left null).  \<open>lwjson_real_t\<close> and \<open>lwjson_int_t\<close> come from the
  configuration header, which is not part of the sources: reals are modelled by exact
  rationals and integers by unbounded integers.
\<close>

record lwjson_token =
  nxt :: "tref option"
  tparent :: "tref option"
  ttype :: lwjson_type
  token_name :: "cptr option"
  token_name_len :: nat
  token_value :: "cptr option"
  token_value_len :: nat
  num_real :: rat
  num_int :: int
  first_child :: "tref option"

text \<open>\<open>memset(t, 0x00, sizeof(*t))\<close>: the enumeration value 0 is \<open>LWJSON_TYPE_STRING\<close>.\<close>

definition zero_token :: lwjson_token where
  "zero_token = \<lparr> nxt = None, tparent = None, ttype = LWJSON_TYPE_STRING,
     token_name = None, token_name_len = 0, token_value = None, token_value_len = 0,
     num_real = 0, num_int = 0, first_child = None \<rparr>"

text \<open>
  \<open>lwjson_t\<close>.  \<open>tokens\<close> is the memory behind the caller's pointer: \<open>tokens lw i\<close> is
  \<open>lw->tokens[i]\<close>, and only the indices below \<open>tokens_len\<close> belong to the arena.
\<close>

record lwjson =
  tokens :: "nat \<Rightarrow> lwjson_token"
  tokens_len :: nat
  next_free_token_pos :: nat
  first_token :: lwjson_token
  parsed :: bool

definition tok :: "lwjson \<Rightarrow> tref \<Rightarrow> lwjson_token" where
  "tok lw r = (case r of First \<Rightarrow> first_token lw | Slot i \<Rightarrow> tokens lw i)"

definition upd_tok :: "lwjson \<Rightarrow> tref \<Rightarrow> (lwjson_token \<Rightarrow> lwjson_token) \<Rightarrow> lwjson" where
  "upd_tok lw r f = (case r of
       First \<Rightarrow> lw\<lparr>first_token := f (first_token lw)\<rparr>
     | Slot i \<Rightarrow> lw\<lparr>tokens := (tokens lw)(i := f (tokens lw i))\<rparr>)"

section \<open>Token arena\<close>

definition prv_alloc_token :: "lwjson \<Rightarrow> tref option \<times> lwjson" where
  "prv_alloc_token lw =
     (if next_free_token_pos lw < tokens_len lw
      then (Some (Slot (next_free_token_pos lw)),
            lw\<lparr>tokens := (tokens lw)(next_free_token_pos lw := zero_token),
               next_free_token_pos := Suc (next_free_token_pos lw)\<rparr>)
      else (None, lw))"

text \<open>
  \<open>lwjson_init(lw, tokens, tokens_len)\<close>: \<open>arr\<close> is the memory behind the pointer
  \<open>tokens\<close>.  Both \<open>memset\<close>s are in the result, so what \<open>*lw\<close> held before does not
  matter.
\<close>

definition lwjson_init :: "(nat \<Rightarrow> lwjson_token) \<Rightarrow> nat \<Rightarrow> lwjsonr \<times> lwjson" where
  "lwjson_init arr n =
     (lwjsonOK,
      \<lparr> tokens = (\<lambda>i. if i < n then zero_token else arr i),
        tokens_len = n,
        next_free_token_pos = 0,
        first_token = zero_token\<lparr>ttype := LWJSON_TYPE_OBJECT\<rparr>,
        parsed = False \<rparr>)"

text \<open>\<open>lwjson_reset\<close>: one \<open>memset\<close> over the \<open>tokens_len\<close> slots of the array.\<close>

definition lwjson_reset :: "lwjson \<Rightarrow> lwjsonr \<times> lwjson" where
  "lwjson_reset lw =
     (lwjsonOK, lw\<lparr>tokens := (\<lambda>i. if i < tokens_len lw then zero_token else tokens lw i)\<rparr>)"

section \<open>Scanner primitives\<close>

definition is_blank :: "char \<Rightarrow> bool" where
  "is_blank c \<longleftrightarrow>
     c = CHR '' '' \<or> c = CHR 0x09 \<or> c = CHR 0x0D \<or> c = CHR 0x0A \<or> c = CHR 0x0C"

lemma blank_in_text: "is_blank (chr_at txt s) \<Longrightarrow> s < length txt"
  by (auto simp: chr_at_def is_blank_def NUL_def split: if_splits)

lemma not_NUL_in_text: "chr_at txt s \<noteq> NUL \<Longrightarrow> s < length txt"
  by (auto simp: chr_at_def split: if_splits)

text \<open>The \<open>while\<close> loop of \<open>prv_skip_blank\<close>: the first position from \<open>s\<close> that is not blank.\<close>

function skip_to :: "string \<Rightarrow> nat \<Rightarrow> nat" where
  "skip_to txt s = (if is_blank (chr_at txt s) then skip_to txt (Suc s) else s)"
  by pat_completeness auto
termination
  by (relation "measure (\<lambda>(txt, s). length txt - s)") (auto dest: blank_in_text)

declare skip_to.simps [simp del]

text \<open>
  \<open>prv_skip_blank\<close>, for a cursor that is not null (\<open>lwjson_parse\<close> rejects a null text
  before it calls any scanner, so the \<open>lwjsonERR\<close> exit is never taken).  The cursor is
  written back only when a non-blank character is found: when the blanks run to the
  terminator the function returns \<open>lwjsonOK\<close> and leaves the cursor where it was.
\<close>

definition prv_skip_blank :: "string \<Rightarrow> nat \<Rightarrow> lwjsonr \<times> nat" where
  "prv_skip_blank txt p =
     (let s = skip_to txt p
      in if chr_at txt s \<noteq> NUL then (lwjsonOK, s) else (lwjsonOK, p))"

definition dquote :: char where
  "dquote = CHR 0x22"

definition backslash :: char where
  "backslash = CHR 0x5C"

text \<open>
  The \<open>for\<close> loop of \<open>prv_parse_string\<close> over the cursor \<open>s\<close>, the count \<open>len\<close> and
  \<open>prev_ch\<close>: \<open>None\<close> when the terminator is reached, otherwise the cursor after the
  closing quote and the count.
\<close>

function str_scan :: "string \<Rightarrow> nat \<Rightarrow> nat \<Rightarrow> char \<Rightarrow> (nat \<times> nat) option" where
  "str_scan txt s len prev_ch =
     (if chr_at txt s = NUL then None
      else if chr_at txt s = dquote \<and> prev_ch \<noteq> backslash then Some (Suc s, len)
      else str_scan txt (Suc s) (Suc len) (chr_at txt s))"
  by pat_completeness auto
termination
  by (relation "measure (\<lambda>(txt, s, len, prev_ch). length txt - s)")
     (auto dest: not_NUL_in_text)

declare str_scan.simps [simp del]

text \<open>
  The result of a scanner that writes through output pointers: the status, the values
  written (\<open>None\<close> when the function returned before the write), and the cursor \<open>*p\<close>.
\<close>

record str_out =
  s_res :: lwjsonr
  s_pout :: "nat option"
  s_poutlen :: "nat option"
  s_p :: nat

definition prv_parse_string :: "string \<Rightarrow> nat \<Rightarrow> str_out" where
  "prv_parse_string txt p =
     (case prv_skip_blank txt p of (res, p1) \<Rightarrow>
        if res \<noteq> lwjsonOK then \<lparr>s_res = res, s_pout = None, s_poutlen = None, s_p = p1\<rparr>
        else if chr_at txt p1 \<noteq> dquote
          then \<lparr>s_res = lwjsonERRJSON, s_pout = None, s_poutlen = None, s_p = p1\<rparr>
        else (case str_scan txt (Suc p1) 0 NUL of
            None \<Rightarrow> \<lparr>s_res = lwjsonERRJSON, s_pout = Some (Suc p1), s_poutlen = None, s_p = p1\<rparr>
          | Some (s, len) \<Rightarrow>
              (let s1 = (if chr_at txt s = dquote then Suc s else s)
               in case prv_skip_blank txt s1 of (res2, s2) \<Rightarrow>
                 if res2 \<noteq> lwjsonOK
                 then \<lparr>s_res = res2, s_pout = Some (Suc p1), s_poutlen = Some len, s_p = p1\<rparr>
                 else \<lparr>s_res = res2, s_pout = Some (Suc p1), s_poutlen = Some len, s_p = s2\<rparr>)))"

definition prv_parse_property_name :: "string \<Rightarrow> nat \<Rightarrow> str_out" where
  "prv_parse_property_name txt p =
     (let r = prv_parse_string txt p
      in if s_res r \<noteq> lwjsonOK then r
         else if chr_at txt (s_p r) \<noteq> CHR '':'' then r\<lparr>s_res := lwjsonERRJSON\<rparr>
         else r\<lparr>s_res := lwjsonOK, s_p := snd (prv_skip_blank txt (Suc (s_p r)))\<rparr>)"

text \<open>
  Comparisons of plain \<open>char\<close> values.  Only digits, \<open>'0'\<close> and \<open>'9'\<close> are compared in
  the source, so whether \<open>char\<close> is signed does not change any outcome below.
\<close>

definition char_less :: "char \<Rightarrow> char \<Rightarrow> bool" where
  "char_less a b \<longleftrightarrow> (of_char a :: nat) < of_char b"

definition is_digit :: "char \<Rightarrow> bool" where
  "is_digit c \<longleftrightarrow> \<not> char_less c (CHR ''0'') \<and> \<not> char_less (CHR ''9'') c"

definition digit_val :: "char \<Rightarrow> int" where
  "digit_val c = int (of_char c) - int (of_char (CHR ''0''))"

lemma digit_in_text: "is_digit (chr_at txt s) \<Longrightarrow> s < length txt"
  by (auto simp: chr_at_def is_digit_def char_less_def NUL_def split: if_splits)

text \<open>\<open>for (num = 0; *s >= '0' && *s <= '9'; ++s) num = num * 10 + (*s - '0')\<close>\<close>

function int_digits :: "string \<Rightarrow> nat \<Rightarrow> rat \<Rightarrow> nat \<times> rat" where
  "int_digits txt s num =
     (if is_digit (chr_at txt s)
      then int_digits txt (Suc s) (num * 10 + of_int (digit_val (chr_at txt s)))
      else (s, num))"
  by pat_completeness auto
termination
  by (relation "measure (\<lambda>(txt, s, num). length txt - s)") (auto dest: digit_in_text)

declare int_digits.simps [simp del]

text \<open>The loop over the digits after the decimal point: cursor, \<open>exp\<close> (here \<open>expo\<close>) and \<open>dec_num\<close>.\<close>

function frac_digits :: "string \<Rightarrow> nat \<Rightarrow> rat \<Rightarrow> rat \<Rightarrow> nat \<times> rat \<times> rat" where
  "frac_digits txt s expo dec_num =
     (if is_digit (chr_at txt s)
      then frac_digits txt (Suc s) (expo * 10) (dec_num * 10 + of_int (digit_val (chr_at txt s)))
      else (s, expo, dec_num))"
  by pat_completeness auto
termination
  by (relation "measure (\<lambda>(txt, s, expo, dec_num). length txt - s)") (auto dest: digit_in_text)

declare frac_digits.simps [simp del]

text \<open>The loop over the exponent digits (\<open>exp_cnt\<close> is a C \<open>int\<close>; here it does not wrap).\<close>

function exp_digits :: "string \<Rightarrow> nat \<Rightarrow> nat \<Rightarrow> nat \<times> nat" where
  "exp_digits txt s exp_cnt =
     (if is_digit (chr_at txt s)
      then exp_digits txt (Suc s) (exp_cnt * 10 + nat (digit_val (chr_at txt s)))
      else (s, exp_cnt))"
  by pat_completeness auto
termination
  by (relation "measure (\<lambda>(txt, s, exp_cnt). length txt - s)") (auto dest: digit_in_text)

declare exp_digits.simps [simp del]

text \<open>\<open>for (; exp_cnt > 0; num /= 10, --exp_cnt) {}\<close> and its twin with \<open>num *= 10\<close>.\<close>

fun scale_loop :: "(rat \<Rightarrow> rat) \<Rightarrow> nat \<Rightarrow> rat \<Rightarrow> rat" where
  "scale_loop f 0 num = num"
| "scale_loop f (Suc exp_cnt) num = scale_loop f exp_cnt (f num)"

text \<open>The cast \<open>(lwjson_int_t)num\<close> drops the fractional part.\<close>

definition to_int :: "rat \<Rightarrow> int" where
  "to_int q = (if q < 0 then - \<lfloor>- q\<rfloor> else \<lfloor>q\<rfloor>)"

record num_out =
  n_res :: lwjsonr
  n_tout :: "lwjson_type option"
  n_fout :: "rat option"
  n_iout :: "int option"
  n_p :: nat

definition num_err :: "nat \<Rightarrow> num_out" where
  "num_err p = \<lparr>n_res = lwjsonERRJSON, n_tout = None, n_fout = None, n_iout = None, n_p = p\<rparr>"

text \<open>The fractional part, entered when \<open>*s == '.'\<close>: \<open>None\<close> is the error return.\<close>

definition parse_fraction :: "string \<Rightarrow> nat \<Rightarrow> rat \<Rightarrow> (nat \<times> rat) option" where
  "parse_fraction txt s num =
     (let s1 = Suc s
      in if \<not> is_digit (chr_at txt s1) then None
         else (case frac_digits txt s1 1 0 of (s2, expo, dec_num) \<Rightarrow>
                 Some (s2, num + dec_num / expo)))"

text \<open>The exponent part, entered when \<open>*s\<close> is \<open>'e'\<close> or \<open>'E'\<close>.\<close>

definition parse_exponent :: "string \<Rightarrow> nat \<Rightarrow> rat \<Rightarrow> (nat \<times> rat) option" where
  "parse_exponent txt s num =
     (let s1 = Suc s;
          is_minus_exp = (chr_at txt s1 = CHR ''-'');
          s2 = (if is_minus_exp then Suc s1 else s1);
          s3 = (if chr_at txt s2 = CHR ''+'' then Suc s2 else s2)
      in if \<not> is_digit (chr_at txt s3) then None
         else (case exp_digits txt s3 0 of (s4, exp_cnt) \<Rightarrow>
                 Some (s4, if is_minus_exp then scale_loop (\<lambda>x. x / 10) exp_cnt num
                           else scale_loop (\<lambda>x. x * 10) exp_cnt num)))"

definition prv_parse_number :: "string \<Rightarrow> nat \<Rightarrow> num_out" where
  "prv_parse_number txt p =
     (case prv_skip_blank txt p of (res, p1) \<Rightarrow>
      if res \<noteq> lwjsonOK
        then \<lparr>n_res = res, n_tout = None, n_fout = None, n_iout = None, n_p = p1\<rparr>
      else if chr_at txt p1 = NUL then num_err p1
      else
        let is_minus = (chr_at txt p1 = CHR ''-'');
            s = (if is_minus then Suc p1 else p1)
        in if chr_at txt s = NUL
              \<or> char_less (chr_at txt s) (CHR ''0'') \<or> char_less (CHR ''9'') (chr_at txt s)
              \<or> (chr_at txt s = CHR ''0''
                   \<and> (char_less (chr_at txt (Suc s)) (CHR ''0'')
                        \<and> char_less (CHR ''9'') (chr_at txt (Suc s))))
           then num_err p1
           else (case int_digits txt s 0 of (s1, num1) \<Rightarrow>
             (case (if chr_at txt s1 = CHR ''.''
                    then map_option (\<lambda>(s2, n2). (s2, n2, LWJSON_TYPE_NUM_REAL))
                           (parse_fraction txt s1 num1)
                    else Some (s1, num1, LWJSON_TYPE_NUM_INT)) of
                None \<Rightarrow> num_err p1
              | Some (s2, num2, type2) \<Rightarrow>
             (case (if chr_at txt s2 = CHR ''e'' \<or> chr_at txt s2 = CHR ''E''
                    then map_option (\<lambda>(s3, n3). (s3, n3, LWJSON_TYPE_NUM_REAL))
                           (parse_exponent txt s2 num2)
                    else Some (s2, num2, type2)) of
                None \<Rightarrow> num_err p1
              | Some (s3, num3, type3) \<Rightarrow>
                  (let num = (if is_minus then - num3 else num3)
                   in if type3 = LWJSON_TYPE_NUM_INT
                      then \<lparr>n_res = lwjsonOK, n_tout = Some type3, n_fout = None,
                             n_iout = Some (to_int num), n_p = s3\<rparr>
                      else \<lparr>n_res = lwjsonOK, n_tout = Some type3, n_fout = Some num,
                             n_iout = None, n_p = s3\<rparr>)))))"

text \<open>
  \<open>strncmp(a + i, b + j, n) == 0\<close>: the two strings agree on their first \<open>n\<close>
  characters, or up to a terminator they share.
\<close>

fun strncmp_eq :: "string \<Rightarrow> nat \<Rightarrow> string \<Rightarrow> nat \<Rightarrow> nat \<Rightarrow> bool" where
  "strncmp_eq a i b j 0 = True"
| "strncmp_eq a i b j (Suc n) =
     (chr_at a i = chr_at b j \<and> (chr_at a i = NUL \<or> strncmp_eq a (Suc i) b (Suc j) n))"

section \<open>Tree-building parser\<close>

text \<open>
  The local variables of \<open>lwjson_parse\<close> that live across iterations of its loop; the
  instance behind \<open>lw\<close> is passed beside them.  Inside the loop \<open>to\<close> is never null:
  the iteration that would make it null returns.
\<close>

record pstate =
  ps_p :: nat
  ps_to :: tref
  ps_first_check :: bool
  ps_res :: lwjsonr

text \<open>An iteration ends with \<open>continue\<close> (or by falling through) or with \<open>goto ret\<close>.\<close>

datatype step = Continue lwjson pstate | Goto_ret lwjsonr lwjson

text \<open>
  \<open>for (c = to->u.first_child; c->next != NULL; c = c->next) {}\<close>.  On a chain of
  \<open>next\<close> links that runs in a circle the loop never ends: the result is \<open>None\<close>.
\<close>

partial_function (option) last_sibling :: "(tref \<Rightarrow> lwjson_token) \<Rightarrow> tref \<Rightarrow> tref option" where
  "last_sibling h c = (case nxt (h c) of None \<Rightarrow> Some c | Some c' \<Rightarrow> last_sibling h c')"

declare last_sibling.simps [code]

text \<open>"Add element to linked list"\<close>

definition link_token :: "lwjson \<Rightarrow> tref \<Rightarrow> tref \<Rightarrow> lwjson option" where
  "link_token lw to t =
     (case first_child (tok lw to) of
        None \<Rightarrow> Some (upd_tok lw to (\<lambda>k. k\<lparr>first_child := Some t\<rparr>))
      | Some c0 \<Rightarrow>
          (case last_sibling (tok lw) c0 of
             None \<Rightarrow> None
           | Some c \<Rightarrow> Some (upd_tok lw c (\<lambda>k. k\<lparr>nxt := Some t\<rparr>))))"

text \<open>The writes of a string scanner through \<open>&t->token_name\<close> and \<open>&t->token_name_len\<close>.\<close>

definition write_name :: "string \<Rightarrow> str_out \<Rightarrow> lwjson_token \<Rightarrow> lwjson_token" where
  "write_name txt r k =
     (let k1 = (case s_pout r of None \<Rightarrow> k | Some a \<Rightarrow> k\<lparr>token_name := Some (txt, a)\<rparr>)
      in case s_poutlen r of None \<Rightarrow> k1 | Some n \<Rightarrow> k1\<lparr>token_name_len := n\<rparr>)"

definition write_value :: "string \<Rightarrow> str_out \<Rightarrow> lwjson_token \<Rightarrow> lwjson_token" where
  "write_value txt r k =
     (let k1 = (case s_pout r of None \<Rightarrow> k | Some a \<Rightarrow> k\<lparr>token_value := Some (txt, a)\<rparr>)
      in case s_poutlen r of None \<Rightarrow> k1 | Some n \<Rightarrow> k1\<lparr>token_value_len := n\<rparr>)"

definition write_number :: "num_out \<Rightarrow> lwjson_token \<Rightarrow> lwjson_token" where
  "write_number r k =
     (let k1 = (case n_tout r of None \<Rightarrow> k | Some ty \<Rightarrow> k\<lparr>ttype := ty\<rparr>);
          k2 = (case n_iout r of None \<Rightarrow> k1 | Some i \<Rightarrow> k1\<lparr>num_int := i\<rparr>)
      in case n_fout r of None \<Rightarrow> k2 | Some f \<Rightarrow> k2\<lparr>num_real := f\<rparr>)"

text \<open>
  "Check what are values after the token value": the end of an iteration that produced
  a token which is not a container.
\<close>

definition after_value :: "string \<Rightarrow> lwjson \<Rightarrow> pstate \<Rightarrow> step" where
  "after_value txt lw st =
     (case prv_skip_blank txt (ps_p st) of (res, p1) \<Rightarrow>
        if res \<noteq> lwjsonOK then Goto_ret res lw
        else if chr_at txt p1 = NUL
                \<or> (chr_at txt p1 \<noteq> CHR '','' \<and> chr_at txt p1 \<noteq> CHR '']''
                     \<and> chr_at txt p1 \<noteq> CHR ''}'')
          then Goto_ret lwjsonERRJSON lw
        else if chr_at txt p1 = CHR '',''
          then Continue lw (st\<lparr>ps_p := Suc p1, ps_res := res\<rparr>)
        else Continue lw (st\<lparr>ps_p := p1, ps_res := res\<rparr>))"

text \<open>
  \<open>switch (*p)\<close> with the test that follows it, for the new token \<open>t\<close> already linked
  into the container \<open>to\<close>.
\<close>

definition parse_value :: "string \<Rightarrow> lwjson \<Rightarrow> pstate \<Rightarrow> tref \<Rightarrow> step" where
  "parse_value txt lw st t =
     (let p = ps_p st; c = chr_at txt p
      in if c = CHR ''{'' \<or> c = CHR ''[''
         then Continue
                (upd_tok lw t (\<lambda>k. k\<lparr>
                   ttype := (if c = CHR ''{'' then LWJSON_TYPE_OBJECT else LWJSON_TYPE_ARRAY),
                   nxt := Some (ps_to st)\<rparr>))
                (st\<lparr>ps_to := t, ps_p := Suc p\<rparr>)
         else if c = dquote
         then (let r = prv_parse_string txt p; lw1 = upd_tok lw t (write_value txt r)
               in if s_res r = lwjsonOK
                  then after_value txt
                         (upd_tok lw1 t (\<lambda>k. k\<lparr>ttype := LWJSON_TYPE_STRING\<rparr>))
                         (st\<lparr>ps_p := s_p r, ps_res := s_res r\<rparr>)
                  else Goto_ret (s_res r) lw1)
         else if c = CHR ''t''
         then (if strncmp_eq txt p ''true'' 0 4
               then after_value txt (upd_tok lw t (\<lambda>k. k\<lparr>ttype := LWJSON_TYPE_TRUE\<rparr>))
                      (st\<lparr>ps_p := p + 4\<rparr>)
               else Goto_ret lwjsonERRJSON lw)
         else if c = CHR ''f''
         then (if strncmp_eq txt p ''false'' 0 5
               then after_value txt (upd_tok lw t (\<lambda>k. k\<lparr>ttype := LWJSON_TYPE_FALSE\<rparr>))
                      (st\<lparr>ps_p := p + 5\<rparr>)
               else Goto_ret lwjsonERRJSON lw)
         else if c = CHR ''n''
         then (if strncmp_eq txt p ''null'' 0 4
               then after_value txt (upd_tok lw t (\<lambda>k. k\<lparr>ttype := LWJSON_TYPE_NULL\<rparr>))
                      (st\<lparr>ps_p := p + 4\<rparr>)
               else Goto_ret lwjsonERRJSON lw)
         else if c = CHR ''-'' \<or> is_digit c
         then (let r = prv_parse_number txt p; lw1 = upd_tok lw t (write_number r)
               in if n_res r \<noteq> lwjsonOK then Goto_ret lwjsonERRJSON lw1
                  else if ttype (tok lw1 t) = LWJSON_TYPE_ARRAY
                          \<or> ttype (tok lw1 t) = LWJSON_TYPE_OBJECT
                  then Continue lw1 (st\<lparr>ps_p := n_p r\<rparr>)
                  else after_value txt lw1 (st\<lparr>ps_p := n_p r\<rparr>))
         else Goto_ret lwjsonERRJSON lw)"

text \<open>
  From the property name to the end of the iteration, for the token \<open>t\<close> just allocated.
  \<open>None\<close>: the walk to the last sibling does not end.
\<close>

definition parse_member :: "string \<Rightarrow> lwjson \<Rightarrow> pstate \<Rightarrow> tref \<Rightarrow> step option" where
  "parse_member txt lw st t =
     (let named = (ttype (tok lw (ps_to st)) \<noteq> LWJSON_TYPE_ARRAY)
      in if named \<and> chr_at txt (ps_p st) \<noteq> dquote then Some (Goto_ret lwjsonERRJSON lw)
         else
           let r = prv_parse_property_name txt (ps_p st);
               lw1 = (if named then upd_tok lw t (write_name txt r) else lw);
               p1 = (if named then s_p r else ps_p st);
               res1 = (if named then s_res r else ps_res st)
           in if named \<and> s_res r \<noteq> lwjsonOK then Some (Goto_ret (s_res r) lw1)
              else (case link_token lw1 (ps_to st) t of
                      None \<Rightarrow> None
                    | Some lw2 \<Rightarrow>
                        Some (parse_value txt lw2 (st\<lparr>ps_p := p1, ps_res := res1\<rparr>) t)))"

text \<open>From "Allocate new token" to the end of the iteration.\<close>

definition parse_token :: "string \<Rightarrow> lwjson \<Rightarrow> pstate \<Rightarrow> step option" where
  "parse_token txt lw st =
     (case prv_alloc_token lw of
        (None, lw0) \<Rightarrow> Some (Goto_ret lwjsonERRMEM lw0)
      | (Some t, lw0) \<Rightarrow> parse_member txt lw0 st t)"

text \<open>
  The start of an iteration of \<open>while (p != NULL && *p != '\0')\<close>, up to "Allocate new
  token": \<open>Inl\<close> when the iteration ends here, \<open>Inr\<close> with the locals when it goes on to
  allocate a token.
\<close>

definition parse_head :: "string \<Rightarrow> lwjson \<Rightarrow> pstate \<Rightarrow> step + pstate" where
  "parse_head txt lw st =
     (case prv_skip_blank txt (ps_p st) of (res, p) \<Rightarrow>
      let to = ps_to st
      in if res \<noteq> lwjsonOK then Inl (Goto_ret res lw)
         else if ps_first_check st
         then (if chr_at txt p = CHR ''{''
               then Inl (Continue (upd_tok lw to (\<lambda>k. k\<lparr>ttype := LWJSON_TYPE_OBJECT\<rparr>))
                      (st\<lparr>ps_p := Suc p, ps_first_check := False, ps_res := res\<rparr>))
               else if chr_at txt p = CHR ''[''
               then Inl (Continue (upd_tok lw to (\<lambda>k. k\<lparr>ttype := LWJSON_TYPE_ARRAY\<rparr>))
                      (st\<lparr>ps_p := Suc p, ps_first_check := False, ps_res := res\<rparr>))
               else Inl (Goto_ret lwjsonERRMEM lw))
         else if chr_at txt p = CHR '',''
         then Inl (Continue lw (st\<lparr>ps_p := Suc p, ps_res := res\<rparr>))
         else if chr_at txt p
                   = (if ttype (tok lw to) = LWJSON_TYPE_OBJECT then CHR ''}'' else CHR '']'')
         then (let lw1 = upd_tok lw to (\<lambda>k. k\<lparr>nxt := None\<rparr>)
               in case nxt (tok lw to) of
                    None \<Rightarrow>
                      (case prv_skip_blank txt (Suc p) of (res2, p2) \<Rightarrow>
                         Inl (Goto_ret (if chr_at txt p2 = NUL then lwjsonOK else lwjsonERR) lw1))
                  | Some parent_to \<Rightarrow>
                      Inl (Continue lw1 (st\<lparr>ps_to := parent_to, ps_p := Suc p, ps_res := res\<rparr>)))
         else Inr (st\<lparr>ps_p := p, ps_res := res\<rparr>))"

text \<open>One iteration of the loop.\<close>

definition parse_iter :: "string \<Rightarrow> lwjson \<Rightarrow> pstate \<Rightarrow> step option" where
  "parse_iter txt lw st =
     (case parse_head txt lw st of
        Inl stp \<Rightarrow> Some stp
      | Inr st1 \<Rightarrow> parse_token txt lw st1)"

text \<open>The label \<open>ret\<close>.\<close>

definition ret :: "lwjsonr \<Rightarrow> lwjson \<Rightarrow> lwjsonr \<times> lwjson" where
  "ret res lw = (res, if res = lwjsonOK then lw\<lparr>parsed := True\<rparr> else lw)"

text \<open>
  The loop with the code between its end and \<open>ret\<close>, which is reached when the cursor
  arrives at the terminator.
\<close>

partial_function (option) parse_loop ::
    "string \<Rightarrow> lwjson \<Rightarrow> pstate \<Rightarrow> (lwjsonr \<times> lwjson) option" where
  "parse_loop txt lw st =
     (if chr_at txt (ps_p st) = NUL
      then Some (ret (ps_res st)
                   (upd_tok lw (ps_to st) (\<lambda>k. k\<lparr>token_name := None, token_name_len := 0\<rparr>)))
      else (case parse_iter txt lw st of
              None \<Rightarrow> None
            | Some (Goto_ret res lw') \<Rightarrow> Some (ret res lw')
            | Some (Continue lw' st') \<Rightarrow> parse_loop txt lw' st'))"

declare parse_loop.simps [code]

text \<open>\<open>lwjson_parse\<close>; a null \<open>json_str\<close> is \<open>None\<close>.\<close>

definition lwjson_parse :: "lwjson \<Rightarrow> string option \<Rightarrow> (lwjsonr \<times> lwjson) option" where
  "lwjson_parse lw json_str =
     (let lw0 = lw\<lparr>parsed := False, next_free_token_pos := 0, first_token := zero_token\<rparr>
      in case json_str of
           None \<Rightarrow> Some (lwjsonERRJSON, lw0)
         | Some txt \<Rightarrow>
             if chr_at txt 0 = NUL then Some (lwjsonERRJSON, lw0)
             else parse_loop txt lw0
                    \<lparr>ps_p = 0, ps_to = First, ps_first_check = True, ps_res = lwjsonOK\<rparr>)"

section \<open>Path search\<close>

text \<open>\<open>for (*olen = 0; *s != '\0' && *s != '.'; ++(*olen), ++s) {}\<close>: cursor and length.\<close>

function seg_scan :: "string \<Rightarrow> nat \<Rightarrow> nat \<Rightarrow> nat \<times> nat" where
  "seg_scan path s olen =
     (if chr_at path s \<noteq> NUL \<and> chr_at path s \<noteq> CHR ''.''
      then seg_scan path (Suc s) (Suc olen) else (s, olen))"
  by pat_completeness auto
termination
  by (relation "measure (\<lambda>(path, s, olen). length path - s)") (auto dest: not_NUL_in_text)

declare seg_scan.simps [simp del]

text \<open>
  \<open>prv_create_path_segment\<close> on a path that is not null: \<open>None\<close> is the return value 0,
  otherwise the segment start \<open>*opath\<close>, its length \<open>*olen\<close>, the new cursor \<open>*p\<close> and
  \<open>*is_last\<close>.  In the branch of \<open>'#'\<close> the local cursor \<open>s\<close> is not moved, so the
  last test reads the \<open>'#'\<close> itself.
\<close>

definition prv_create_path_segment :: "string \<Rightarrow> nat \<Rightarrow> (nat \<times> nat \<times> nat \<times> bool) option" where
  "prv_create_path_segment path p =
     (if chr_at path p = NUL then None
      else if chr_at path p = CHR ''#''
      then (if chr_at path (Suc p) \<noteq> CHR ''.'' then None
            else Some (p, 1, p + 1 + 1, chr_at path p = NUL))
      else (case seg_scan path p 0 of (s, olen) \<Rightarrow>
              Some (p, olen, Suc s, chr_at path s = NUL)))"

text \<open>
  \<open>for (t = parent->u.first_child; t != NULL; t = t->next) { ... }\<close>, the shape of both
  loops of \<open>prv_find\<close>.  The body either returns a token from \<open>prv_find\<close> (\<open>Some (Some r)\<close>)
  or goes on to the next sibling (\<open>Some None\<close>); when the siblings are used up the
  function returns null.  \<open>None\<close> stands for a search that does not return, which
  happens on a chain of \<open>next\<close> links that runs in a circle.
\<close>

partial_function (option) child_loop ::
    "(tref \<Rightarrow> tref option option) \<Rightarrow> (tref \<Rightarrow> lwjson_token) \<Rightarrow> tref option \<Rightarrow> tref option option" where
  "child_loop body h t =
     (case t of
        None \<Rightarrow> Some None
      | Some c \<Rightarrow>
          (case body c of
             None \<Rightarrow> None
           | Some (Some r) \<Rightarrow> Some (Some r)
           | Some None \<Rightarrow> child_loop body h (nxt (h c))))"

declare child_loop.simps [code]

text \<open>
  \<open>t->token_name_len == segment_len && !strncmp(t->token_name, segment, segment_len)\<close>.
  A null name comes with the length 0, and \<open>strncmp\<close> over 0 characters reads nothing.
\<close>

definition name_matches :: "lwjson_token \<Rightarrow> string \<Rightarrow> nat \<Rightarrow> nat \<Rightarrow> bool" where
  "name_matches k path segment segment_len \<longleftrightarrow>
     token_name_len k = segment_len \<and>
     (case token_name k of
        None \<Rightarrow> segment_len = 0
      | Some (buf, a) \<Rightarrow> strncmp_eq buf a path segment segment_len)"

lemma seg_scan_ge: "seg_scan path s olen = (s', olen') \<Longrightarrow> s \<le> s'"
proof (induction path s olen rule: seg_scan.induct)
  case (1 path s olen)
  then show ?case
    by (subst (asm) (2) seg_scan.simps) (auto split: if_splits)
qed

lemma path_segment_advances:
  assumes "prv_create_path_segment path p = Some (segment, segment_len, p', is_last)"
  shows "p < length path \<and> p < p'"
proof -
  from assms have "chr_at path p \<noteq> NUL"
    by (auto simp: prv_create_path_segment_def split: if_splits)
  then have "p < length path"
    by (rule not_NUL_in_text)
  moreover from assms have "p < p'"
    by (auto simp: prv_create_path_segment_def split: if_splits prod.splits dest: seg_scan_ge)
  ultimately show ?thesis by simp
qed

function prv_find :: "(tref \<Rightarrow> lwjson_token) \<Rightarrow> tref \<Rightarrow> string \<Rightarrow> nat \<Rightarrow> tref option option" where
  "prv_find h parent path p =
     (case prv_create_path_segment path p of
        None \<Rightarrow> Some None
      | Some (segment, segment_len, p', is_last) \<Rightarrow>
          if chr_at path segment = CHR ''#'' \<and> segment_len = 1
          then (if ttype (h parent) \<noteq> LWJSON_TYPE_ARRAY then Some None
                else child_loop (\<lambda>t. prv_find h t path p') h (first_child (h parent)))
          else (if ttype (h parent) \<noteq> LWJSON_TYPE_OBJECT then Some None
                else child_loop
                       (\<lambda>t. if name_matches (h t) path segment segment_len
                            then (if is_last then Some (Some t) else prv_find h t path p')
                            else Some None)
                       h (first_child (h parent))))"
  by pat_completeness auto
termination
  by (relation "measure (\<lambda>(h, parent, path, p). length path - p)")
     (auto dest!: path_segment_advances)

declare prv_find.simps [simp del]

text \<open>\<open>lwjson_find\<close> on an instance that is not null; a null \<open>path\<close> is \<open>None\<close>.\<close>

definition lwjson_find :: "lwjson \<Rightarrow> string option \<Rightarrow> tref option option" where
  "lwjson_find lw path =
     (case path of
        None \<Rightarrow> Some None
      | Some pth \<Rightarrow> if \<not> parsed lw then Some None else prv_find (tok lw) First pth 0)"

section \<open>Instances and documents used in the examples\<close>

text \<open>The instance \<open>lwjson_init\<close> makes of an array of \<open>n\<close> tokens.\<close>

definition fresh :: "nat \<Rightarrow> lwjson" where
  "fresh n = snd (lwjson_init (\<lambda>i. zero_token) n)"

text \<open>The status and the instance after \<open>lwjson_parse(lw, txt)\<close>.\<close>

definition parse_status :: "lwjson \<Rightarrow> string \<Rightarrow> lwjsonr option" where
  "parse_status lw txt = map_option fst (lwjson_parse lw (Some txt))"

definition parse_tree :: "lwjson \<Rightarrow> string \<Rightarrow> lwjson" where
  "parse_tree lw txt = (case lwjson_parse lw (Some txt) of Some (r, l) \<Rightarrow> l | None \<Rightarrow> lw)"

definition example_doc :: string where
  "example_doc = ''{\"a\":{\"b\":1},\"c\":[10,20,{\"d\":30}]}''"

definition dup_doc :: string where
  "dup_doc = ''{\"a\":{\"x\":1},\"a\":{\"b\":2}}''"

text \<open>The four characters \<open>"\\"\<close>: a JSON string holding one escaped backslash.\<close>

definition escaped_backslash :: string where
  "escaped_backslash = [dquote, backslash, backslash, dquote]"

definition example_tree :: lwjson where
  "example_tree = parse_tree (fresh 8) example_doc"

definition dup_tree :: lwjson where
  "dup_tree = parse_tree (fresh 8) dup_doc"

section \<open>Notions used to state the claims\<close>

text \<open>
  \<open>is_chain h t cs\<close>: following \<open>next\<close> from the pointer \<open>t\<close> visits exactly the tokens
  \<open>cs\<close>, in this order, and then reaches null.
\<close>

fun is_chain :: "(tref \<Rightarrow> lwjson_token) \<Rightarrow> tref option \<Rightarrow> tref list \<Rightarrow> bool" where
  "is_chain h t [] \<longleftrightarrow> t = None"
| "is_chain h t (c # cs) \<longleftrightarrow> t = Some c \<and> is_chain h (nxt (h c)) cs"

text \<open>
  The outcome of running a loop body over a list of tokens, given what the body does at
  each: the first token returned, null when every body went on, and no return at all
  when a body that is reached does not return.
\<close>

fun first_result :: "tref option option list \<Rightarrow> tref option option" where
  "first_result [] = Some None"
| "first_result (None # rs) = None"
| "first_result (Some (Some r) # rs) = Some (Some r)"
| "first_result (Some None # rs) = first_result rs"

text \<open>
  The search for a literal segment as the specification words it, over the children
  \<open>cs\<close> of an object: take the first child whose name matches; if the segment is the
  last one return that child, otherwise the result is the search inside that child; with
  no matching child the result is not-found.
\<close>

definition first_match_search ::
    "(tref \<Rightarrow> lwjson_token) \<Rightarrow> tref list \<Rightarrow> string \<Rightarrow> nat \<Rightarrow> nat \<Rightarrow> nat \<Rightarrow> bool
       \<Rightarrow> tref option option" where
  "first_match_search h cs path segment segment_len p' is_last =
     (case find (\<lambda>t. name_matches (h t) path segment segment_len) cs of
        None \<Rightarrow> Some None
      | Some c \<Rightarrow> if is_last then Some (Some c) else prv_find h c path p')"

text \<open>
  The instance a step ends with, a step with the capacity of its instance replaced, and
  the part of an instance that the arena's bookkeeping consists of.
\<close>

fun step_lw :: "step \<Rightarrow> lwjson" where
  "step_lw (Continue lw st) = lw"
| "step_lw (Goto_ret res lw) = lw"

fun cap_step :: "nat \<Rightarrow> step \<Rightarrow> step" where
  "cap_step n (Continue lw st) = Continue (lw\<lparr>tokens_len := n\<rparr>) st"
| "cap_step n (Goto_ret res lw) = Goto_ret res (lw\<lparr>tokens_len := n\<rparr>)"

definition arena :: "lwjson \<Rightarrow> nat \<times> nat \<times> bool" where
  "arena lw = (tokens_len lw, next_free_token_pos lw, parsed lw)"

section \<open>Evaluation\<close>

lemmas scan_defs = prv_skip_blank_def skip_to.simps chr_at_def NUL_def is_blank_def
  char_less_def is_digit_def digit_val_def int_digits.simps frac_digits.simps exp_digits.simps
  parse_fraction_def parse_exponent_def to_int_def num_err_def Let_def prv_parse_number_def
  str_scan.simps prv_parse_string_def dquote_def backslash_def prv_parse_property_name_def

lemmas parse_defs = lwjson_parse_def parse_loop.simps parse_iter_def parse_head_def
  parse_token_def parse_member_def
  parse_value_def after_value_def ret_def link_token_def last_sibling.simps write_name_def
  write_value_def write_number_def prv_alloc_token_def tok_def upd_tok_def zero_token_def
  lwjson_init_def parse_status_def parse_tree_def fresh_def example_tree_def
  example_doc_def dup_tree_def dup_doc_def

lemmas find_defs = lwjson_find_def prv_find.simps prv_create_path_segment_def seg_scan.simps
  child_loop.simps name_matches_def

section \<open>The sibling loops over a chain that ends\<close>

lemma child_loop_chain:
  "is_chain h t cs \<Longrightarrow> child_loop body h t = first_result (map body cs)"
proof (induction cs arbitrary: t)
  case Nil
  then show ?case by (simp add: child_loop.simps)
next
  case (Cons c cs)
  then have t: "t = Some c" and rest: "is_chain h (nxt (h c)) cs" by simp_all
  show ?case
  proof (cases "body c")
    case None
    with t show ?thesis by (simp add: child_loop.simps)
  next
    case (Some r)
    with t Cons.IH [OF rest] show ?thesis
      by (cases r) (simp_all add: child_loop.simps)
  qed
qed

lemma first_result_filter:
  "first_result (map (\<lambda>t. if m t then g t else Some None) cs) = first_result (map g (filter m cs))"
proof (induction cs)
  case Nil
  show ?case by simp
next
  case (Cons c cs)
  show ?case
  proof (cases "m c")
    case False
    with Cons show ?thesis by simp
  next
    case True
    show ?thesis
    proof (cases "g c")
      case None
      with True show ?thesis by simp
    next
      case (Some r)
      with True Cons show ?thesis by (cases r) simp_all
    qed
  qed
qed

lemma first_result_find:
  "first_result (map (\<lambda>t. if m t then Some (Some t) else Some None) cs) = Some (find m cs)"
  by (induction cs) simp_all

lemma first_result_nothing:
  "first_result (map (\<lambda>t. Some None) cs) = Some None"
  by (induction cs) simp_all

section \<open>The trees of the example documents\<close>

lemma example_tree_list:
  "map (tok example_tree) [First, Slot 0, Slot (Suc 0), Slot 2, Slot 3, Slot 4, Slot 5, Slot 6]
     = [zero_token\<lparr>ttype := LWJSON_TYPE_OBJECT, first_child := Some (Slot 0)\<rparr>,
        zero_token\<lparr>ttype := LWJSON_TYPE_OBJECT, token_name := Some (example_doc, 2),
          token_name_len := 1, nxt := Some (Slot 2), first_child := Some (Slot 1)\<rparr>,
        zero_token\<lparr>ttype := LWJSON_TYPE_NUM_INT, token_name := Some (example_doc, 7),
          token_name_len := 1, num_int := 1\<rparr>,
        zero_token\<lparr>ttype := LWJSON_TYPE_ARRAY, token_name := Some (example_doc, 14),
          token_name_len := 1, first_child := Some (Slot 3)\<rparr>,
        zero_token\<lparr>ttype := LWJSON_TYPE_NUM_INT, nxt := Some (Slot 4), num_int := 10\<rparr>,
        zero_token\<lparr>ttype := LWJSON_TYPE_NUM_INT, nxt := Some (Slot 5), num_int := 20\<rparr>,
        zero_token\<lparr>ttype := LWJSON_TYPE_OBJECT, first_child := Some (Slot 6)\<rparr>,
        zero_token\<lparr>ttype := LWJSON_TYPE_NUM_INT, token_name := Some (example_doc, 26),
          token_name_len := 1, num_int := 30\<rparr>]"
  by code_simp

lemma example_tree_tokens:
  "tok example_tree First
     = zero_token\<lparr>ttype := LWJSON_TYPE_OBJECT, first_child := Some (Slot 0)\<rparr>"
  "tok example_tree (Slot 0)
     = zero_token\<lparr>ttype := LWJSON_TYPE_OBJECT, token_name := Some (example_doc, 2),
         token_name_len := 1, nxt := Some (Slot 2), first_child := Some (Slot 1)\<rparr>"
  "tok example_tree (Slot (Suc 0))
     = zero_token\<lparr>ttype := LWJSON_TYPE_NUM_INT, token_name := Some (example_doc, 7),
         token_name_len := 1, num_int := 1\<rparr>"
  "tok example_tree (Slot 2)
     = zero_token\<lparr>ttype := LWJSON_TYPE_ARRAY, token_name := Some (example_doc, 14),
         token_name_len := 1, first_child := Some (Slot 3)\<rparr>"
  "tok example_tree (Slot 3)
     = zero_token\<lparr>ttype := LWJSON_TYPE_NUM_INT, nxt := Some (Slot 4), num_int := 10\<rparr>"
  "tok example_tree (Slot 4)
     = zero_token\<lparr>ttype := LWJSON_TYPE_NUM_INT, nxt := Some (Slot 5), num_int := 20\<rparr>"
  "tok example_tree (Slot 5)
     = zero_token\<lparr>ttype := LWJSON_TYPE_OBJECT, first_child := Some (Slot 6)\<rparr>"
  "tok example_tree (Slot 6)
     = zero_token\<lparr>ttype := LWJSON_TYPE_NUM_INT, token_name := Some (example_doc, 26),
         token_name_len := 1, num_int := 30\<rparr>"
  using example_tree_list by simp_all

lemma example_tree_parsed:
  "parse_status (fresh 8) example_doc = Some lwjsonOK \<and> parsed example_tree"
  by code_simp

lemma dup_tree_list:
  "map (tok dup_tree) [First, Slot 0, Slot (Suc 0), Slot 2, Slot 3]
     = [zero_token\<lparr>ttype := LWJSON_TYPE_OBJECT, first_child := Some (Slot 0)\<rparr>,
        zero_token\<lparr>ttype := LWJSON_TYPE_OBJECT, token_name := Some (dup_doc, 2),
          token_name_len := 1, nxt := Some (Slot 2), first_child := Some (Slot 1)\<rparr>,
        zero_token\<lparr>ttype := LWJSON_TYPE_NUM_INT, token_name := Some (dup_doc, 7),
          token_name_len := 1, num_int := 1\<rparr>,
        zero_token\<lparr>ttype := LWJSON_TYPE_OBJECT, token_name := Some (dup_doc, 14),
          token_name_len := 1, first_child := Some (Slot 3)\<rparr>,
        zero_token\<lparr>ttype := LWJSON_TYPE_NUM_INT, token_name := Some (dup_doc, 19),
          token_name_len := 1, num_int := 2\<rparr>]"
  by code_simp

lemma dup_tree_tokens:
  "tok dup_tree First
     = zero_token\<lparr>ttype := LWJSON_TYPE_OBJECT, first_child := Some (Slot 0)\<rparr>"
  "tok dup_tree (Slot 0)
     = zero_token\<lparr>ttype := LWJSON_TYPE_OBJECT, token_name := Some (dup_doc, 2),
         token_name_len := 1, nxt := Some (Slot 2), first_child := Some (Slot 1)\<rparr>"
  "tok dup_tree (Slot (Suc 0))
     = zero_token\<lparr>ttype := LWJSON_TYPE_NUM_INT, token_name := Some (dup_doc, 7),
         token_name_len := 1, num_int := 1\<rparr>"
  "tok dup_tree (Slot 2)
     = zero_token\<lparr>ttype := LWJSON_TYPE_OBJECT, token_name := Some (dup_doc, 14),
         token_name_len := 1, first_child := Some (Slot 3)\<rparr>"
  "tok dup_tree (Slot 3)
     = zero_token\<lparr>ttype := LWJSON_TYPE_NUM_INT, token_name := Some (dup_doc, 19),
         token_name_len := 1, num_int := 2\<rparr>"
  using dup_tree_list by simp_all

lemma dup_tree_parsed:
  "parse_status (fresh 8) dup_doc = Some lwjsonOK \<and> parsed dup_tree"
  by code_simp

text \<open>The names in the two documents, and reading a path that is written out.\<close>

lemma doc_names:
  "chr_at example_doc 2 = CHR ''a''" "chr_at example_doc 7 = CHR ''b''"
  "chr_at example_doc 14 = CHR ''c''" "chr_at example_doc 26 = CHR ''d''"
  "chr_at dup_doc 2 = CHR ''a''" "chr_at dup_doc 7 = CHR ''x''"
  "chr_at dup_doc 14 = CHR ''a''" "chr_at dup_doc 19 = CHR ''b''"
  by (simp_all add: example_doc_def dup_doc_def chr_at_def)

lemma chr_at_list:
  "chr_at [] n = NUL"
  "chr_at (c # cs) n = (if n = 0 then c else chr_at cs (n - 1))"
  by (auto simp: chr_at_def)

text \<open>Evaluation of a search on one of the two trees, with the tree kept folded.\<close>

lemmas tree_eval = example_tree_tokens example_tree_parsed dup_tree_tokens dup_tree_parsed
  zero_token_def doc_names chr_at_list NUL_def

section \<open>The same parse with another capacity\<close>

text \<open>
  \<open>tokens_len\<close> is read in one place, the test of \<open>prv_alloc_token\<close>.  Two runs on the
  same text whose instances differ in \<open>tokens_len\<close> only therefore stay in step until
  one of them fails to allocate.
\<close>

lemma parse_status_tree:
  "parse_status lw txt = Some r \<Longrightarrow> lwjson_parse lw (Some txt) = Some (r, parse_tree lw txt)"
  by (auto simp: parse_status_def parse_tree_def)

lemma tok_cap: "tok (lw\<lparr>tokens_len := n\<rparr>) = tok lw"
  by (rule ext) (simp add: tok_def split: tref.splits)

lemma upd_tok_cap: "upd_tok (lw\<lparr>tokens_len := n\<rparr>) r f = (upd_tok lw r f)\<lparr>tokens_len := n\<rparr>"
  by (cases r) (simp_all add: upd_tok_def)

lemma arena_upd_tok: "arena (upd_tok lw r f) = arena lw"
  by (cases r) (simp_all add: upd_tok_def arena_def)

lemma link_token_cap:
  "link_token (lw\<lparr>tokens_len := n\<rparr>) to t = map_option (\<lambda>l. l\<lparr>tokens_len := n\<rparr>) (link_token lw to t)"
  by (simp add: link_token_def tok_cap upd_tok_cap split: option.splits)

lemma arena_link_token: "link_token lw to t = Some l \<Longrightarrow> arena l = arena lw"
  by (auto simp: link_token_def arena_upd_tok split: option.splits)

lemma after_value_cap: "after_value txt (lw\<lparr>tokens_len := n\<rparr>) st = cap_step n (after_value txt lw st)"
  by (simp add: after_value_def split: prod.splits)

lemma arena_after_value: "arena (step_lw (after_value txt lw st)) = arena lw"
  by (simp add: after_value_def split: prod.splits)

lemma parse_value_cap: "parse_value txt (lw\<lparr>tokens_len := n\<rparr>) st t = cap_step n (parse_value txt lw st t)"
  by (simp add: parse_value_def Let_def tok_cap upd_tok_cap after_value_cap)

lemma arena_parse_value: "arena (step_lw (parse_value txt lw st t)) = arena lw"
  by (simp add: parse_value_def Let_def arena_upd_tok arena_after_value)

lemma parse_member_cap:
  "parse_member txt (lw\<lparr>tokens_len := n\<rparr>) st t = map_option (cap_step n) (parse_member txt lw st t)"
  by (simp add: parse_member_def Let_def tok_cap upd_tok_cap link_token_cap parse_value_cap
        split: option.splits)

lemma arena_parse_member: "parse_member txt lw st t = Some stp \<Longrightarrow> arena (step_lw stp) = arena lw"
  by (auto simp: parse_member_def Let_def arena_upd_tok arena_parse_value
        split: if_splits option.splits dest!: arena_link_token)

lemma parse_head_cap:
  "parse_head txt (lw\<lparr>tokens_len := n\<rparr>) st = map_sum (cap_step n) id (parse_head txt lw st)"
  by (simp add: parse_head_def Let_def tok_cap upd_tok_cap split: prod.splits option.splits)

lemma arena_parse_head: "parse_head txt lw st = Inl stp \<Longrightarrow> arena (step_lw stp) = arena lw"
  by (auto simp: parse_head_def Let_def arena_upd_tok split: prod.splits if_splits option.splits)


lemma parse_token_cap:
  assumes "next_free_token_pos lw \<le> n" and "n \<le> tokens_len lw"
  shows "parse_token txt (lw\<lparr>tokens_len := n\<rparr>) st =
           (if next_free_token_pos lw < n then map_option (cap_step n) (parse_token txt lw st)
            else Some (Goto_ret lwjsonERRMEM (lw\<lparr>tokens_len := n\<rparr>)))"
proof (cases "next_free_token_pos lw < n")
  case True
  with assms have room: "next_free_token_pos lw < tokens_len lw" by simp
  obtain t lw0 where al: "prv_alloc_token lw = (Some t, lw0)"
    using room by (simp add: prv_alloc_token_def)
  with True room have "prv_alloc_token (lw\<lparr>tokens_len := n\<rparr>) = (Some t, lw0\<lparr>tokens_len := n\<rparr>)"
    by (auto simp: prv_alloc_token_def)
  with al True show ?thesis
    by (simp add: parse_token_def parse_member_cap)
next
  case False
  then show ?thesis
    by (simp add: parse_token_def prv_alloc_token_def)
qed

lemma arena_parse_token:
  assumes "parse_token txt lw st = Some stp"
  shows "if next_free_token_pos lw < tokens_len lw
         then arena (step_lw stp) = (tokens_len lw, Suc (next_free_token_pos lw), parsed lw)
         else stp = Goto_ret lwjsonERRMEM lw"
  using assms
  by (auto simp: parse_token_def prv_alloc_token_def arena_def split: if_splits
           dest!: arena_parse_member)

lemma arena_parse_iter:
  assumes "parse_iter txt lw st = Some stp"
  shows "tokens_len (step_lw stp) = tokens_len lw \<and> parsed (step_lw stp) = parsed lw
         \<and> next_free_token_pos lw \<le> next_free_token_pos (step_lw stp)
         \<and> (next_free_token_pos lw \<le> tokens_len lw
              \<longrightarrow> next_free_token_pos (step_lw stp) \<le> tokens_len lw)"
proof (cases "parse_head txt lw st")
  case (Inl s)
  with assms have "stp = s" by (simp add: parse_iter_def)
  with arena_parse_head [OF Inl] show ?thesis by (simp add: arena_def)
next
  case (Inr st1)
  with assms have "parse_token txt lw st1 = Some stp" by (simp add: parse_iter_def)
  from arena_parse_token [OF this] show ?thesis
    by (auto simp: arena_def split: if_splits)
qed

lemma parse_iter_cap:
  assumes it: "parse_iter txt lw st = Some stp"
    and lo: "next_free_token_pos lw \<le> n" and hi: "n \<le> tokens_len lw"
  shows "(next_free_token_pos (step_lw stp) \<le> n
            \<longrightarrow> parse_iter txt (lw\<lparr>tokens_len := n\<rparr>) st = Some (cap_step n stp))
       \<and> (n < next_free_token_pos (step_lw stp)
            \<longrightarrow> parse_iter txt (lw\<lparr>tokens_len := n\<rparr>) st
                  = Some (Goto_ret lwjsonERRMEM (lw\<lparr>tokens_len := n\<rparr>)))"
proof (cases "parse_head txt lw st")
  case (Inl s)
  with it have s: "stp = s" by (simp add: parse_iter_def)
  from arena_parse_head [OF Inl] s lo
  have "next_free_token_pos (step_lw stp) \<le> n" by (simp add: arena_def)
  moreover from Inl s have "parse_iter txt (lw\<lparr>tokens_len := n\<rparr>) st = Some (cap_step n stp)"
    by (simp add: parse_iter_def parse_head_cap)
  ultimately show ?thesis by simp
next
  case (Inr st1)
  with it have tk: "parse_token txt lw st1 = Some stp" by (simp add: parse_iter_def)
  from Inr have b: "parse_iter txt (lw\<lparr>tokens_len := n\<rparr>) st
      = parse_token txt (lw\<lparr>tokens_len := n\<rparr>) st1"
    by (simp add: parse_iter_def parse_head_cap)
  show ?thesis
  proof (cases "next_free_token_pos lw < n")
    case True
    with hi arena_parse_token [OF tk]
    have "next_free_token_pos (step_lw stp) \<le> n" by (simp add: arena_def)
    with True b tk parse_token_cap [OF lo hi, of "txt" st1] show ?thesis by simp
  next
    case False
    with lo have eq: "next_free_token_pos lw = n" by simp
    show ?thesis
    proof (cases "n < tokens_len lw")
      case True
      with eq arena_parse_token [OF tk]
      have "n < next_free_token_pos (step_lw stp)" by (simp add: arena_def)
      with False b parse_token_cap [OF lo hi, of "txt" st1] show ?thesis by simp
    next
      case full: False
      with eq arena_parse_token [OF tk]
      have "stp = Goto_ret lwjsonERRMEM lw" by simp
      with False eq b parse_token_cap [OF lo hi, of "txt" st1] show ?thesis by simp
    qed
  qed
qed



lemma parse_loop_exit:
  assumes "chr_at txt (ps_p st) = NUL"
  shows "parse_loop txt lw st
     = Some (ret (ps_res st)
               (upd_tok lw (ps_to st) (\<lambda>k. k\<lparr>token_name := None, token_name_len := 0\<rparr>)))"
  using assms by (subst parse_loop.simps) simp

lemma parse_loop_goto:
  assumes "chr_at txt (ps_p st) \<noteq> NUL" and "parse_iter txt lw st = Some (Goto_ret res lw')"
  shows "parse_loop txt lw st = Some (ret res lw')"
  using assms by (subst parse_loop.simps) simp

lemma parse_loop_continue:
  assumes "chr_at txt (ps_p st) \<noteq> NUL" and "parse_iter txt lw st = Some (Continue lw' st')"
  shows "parse_loop txt lw st = parse_loop txt lw' st'"
  using assms by (subst parse_loop.simps) simp

lemma ret_cap: "ret res (lw\<lparr>tokens_len := n\<rparr>) = (fst (ret res lw), (snd (ret res lw))\<lparr>tokens_len := n\<rparr>)"
  by (simp add: ret_def)

lemma arena_ret:
  "tokens_len (snd (ret res lw)) = tokens_len lw"
  "next_free_token_pos (snd (ret res lw)) = next_free_token_pos lw"
  by (simp_all add: ret_def)

lemma parse_loop_cap:
  assumes "parse_loop txt lw st = Some y"
  shows "tokens_len (snd y) = tokens_len lw
       \<and> next_free_token_pos lw \<le> next_free_token_pos (snd y)
       \<and> (next_free_token_pos lw \<le> tokens_len lw
            \<longrightarrow> next_free_token_pos (snd y) \<le> tokens_len lw)
       \<and> (\<forall>n. next_free_token_pos lw \<le> n \<and> n \<le> tokens_len lw \<and> \<not> parsed lw \<longrightarrow>
             (next_free_token_pos (snd y) \<le> n
                \<longrightarrow> parse_loop txt (lw\<lparr>tokens_len := n\<rparr>) st
                      = Some (fst y, (snd y)\<lparr>tokens_len := n\<rparr>))
           \<and> (n < next_free_token_pos (snd y)
                \<longrightarrow> (\<exists>l. parse_loop txt (lw\<lparr>tokens_len := n\<rparr>) st = Some (lwjsonERRMEM, l)
                          \<and> \<not> parsed l)))"
  using assms
proof (induction "txt" lw st y rule: parse_loop.raw_induct)
  case (1 loop tx lw st y)
  show ?case
  proof (cases "chr_at tx (ps_p st) = NUL")
    case True
    let ?l = "upd_tok lw (ps_to st) (\<lambda>k. k\<lparr>token_name := None, token_name_len := 0\<rparr>)"
    from True "1.hyps" have y: "y = ret (ps_res st) ?l" by simp
    have ar: "arena ?l = arena lw" by (rule arena_upd_tok)
    have "parse_loop tx (lw\<lparr>tokens_len := n\<rparr>) st = Some (fst y, (snd y)\<lparr>tokens_len := n\<rparr>)" for n
      using True y by (simp add: parse_loop_exit upd_tok_cap ret_cap)
    with y ar show ?thesis by (simp add: arena_ret arena_def)
  next
    case False
    with "1.hyps" obtain stp where it: "parse_iter tx lw st = Some stp"
      by (cases "parse_iter tx lw st") simp_all
    note ar = arena_parse_iter [OF it]
    show ?thesis
    proof (cases stp)
      case (Goto_ret r l)
      with False it "1.hyps" have y: "y = ret r l" by simp
      have "(next_free_token_pos (snd y) \<le> n
                \<longrightarrow> parse_loop tx (lw\<lparr>tokens_len := n\<rparr>) st
                      = Some (fst y, (snd y)\<lparr>tokens_len := n\<rparr>))
           \<and> (n < next_free_token_pos (snd y)
                \<longrightarrow> (\<exists>l. parse_loop tx (lw\<lparr>tokens_len := n\<rparr>) st = Some (lwjsonERRMEM, l)
                          \<and> \<not> parsed l))"
        if n: "next_free_token_pos lw \<le> n" "n \<le> tokens_len lw" "\<not> parsed lw" for n
      proof -
        note cp = parse_iter_cap [OF it n(1) n(2)]
        show ?thesis
        proof (cases "next_free_token_pos l \<le> n")
          case True
          with cp Goto_ret
          have "parse_iter tx (lw\<lparr>tokens_len := n\<rparr>) st = Some (Goto_ret r (l\<lparr>tokens_len := n\<rparr>))"
            by simp
          with False have "parse_loop tx (lw\<lparr>tokens_len := n\<rparr>) st = Some (ret r (l\<lparr>tokens_len := n\<rparr>))"
            by (rule parse_loop_goto)
          with True y show ?thesis by (simp add: ret_cap arena_ret)
        next
          case over: False
          with cp Goto_ret
          have "parse_iter tx (lw\<lparr>tokens_len := n\<rparr>) st
              = Some (Goto_ret lwjsonERRMEM (lw\<lparr>tokens_len := n\<rparr>))"
            by simp
          with False have "parse_loop tx (lw\<lparr>tokens_len := n\<rparr>) st
              = Some (ret lwjsonERRMEM (lw\<lparr>tokens_len := n\<rparr>))"
            by (rule parse_loop_goto)
          with over y n(3) show ?thesis by (simp add: ret_def)
        qed
      qed
      with y ar Goto_ret show ?thesis by (simp add: arena_ret)
    next
      case (Continue l' st')
      with False it "1.hyps" have run: "loop tx l' st' = Some y" by simp
      from False it Continue "1.prems" have real: "parse_loop tx l' st' = Some y"
        by (simp add: parse_loop_continue)
      note ih = "1.IH" [OF run real]
      from ar Continue have ar': "tokens_len l' = tokens_len lw" "parsed l' = parsed lw"
        "next_free_token_pos lw \<le> next_free_token_pos l'"
        "next_free_token_pos lw \<le> tokens_len lw \<longrightarrow> next_free_token_pos l' \<le> tokens_len lw"
        by simp_all
      have "(next_free_token_pos (snd y) \<le> n
                \<longrightarrow> parse_loop tx (lw\<lparr>tokens_len := n\<rparr>) st
                      = Some (fst y, (snd y)\<lparr>tokens_len := n\<rparr>))
           \<and> (n < next_free_token_pos (snd y)
                \<longrightarrow> (\<exists>l. parse_loop tx (lw\<lparr>tokens_len := n\<rparr>) st = Some (lwjsonERRMEM, l)
                          \<and> \<not> parsed l))"
        if n: "next_free_token_pos lw \<le> n" "n \<le> tokens_len lw" "\<not> parsed lw" for n
      proof -
        note cp = parse_iter_cap [OF it n(1) n(2)]
        show ?thesis
        proof (cases "next_free_token_pos l' \<le> n")
          case True
          with cp Continue
          have "parse_iter tx (lw\<lparr>tokens_len := n\<rparr>) st = Some (Continue (l'\<lparr>tokens_len := n\<rparr>) st')"
            by simp
          with False have "parse_loop tx (lw\<lparr>tokens_len := n\<rparr>) st
              = parse_loop tx (l'\<lparr>tokens_len := n\<rparr>) st'"
            by (rule parse_loop_continue)
          with ih True n ar' show ?thesis by simp
        next
          case over: False
          with cp Continue
          have "parse_iter tx (lw\<lparr>tokens_len := n\<rparr>) st
              = Some (Goto_ret lwjsonERRMEM (lw\<lparr>tokens_len := n\<rparr>))"
            by simp
          with False have "parse_loop tx (lw\<lparr>tokens_len := n\<rparr>) st
              = Some (ret lwjsonERRMEM (lw\<lparr>tokens_len := n\<rparr>))"
            by (rule parse_loop_goto)
          moreover from over ih have "n < next_free_token_pos (snd y)" by simp
          ultimately show ?thesis using n(3) by (simp add: ret_def)
        qed
      qed
      with ih ar' show ?thesis by simp
    qed
  qed
qed (rule assms)


lemma parse_token_room:
  assumes "next_free_token_pos lw < n" and "next_free_token_pos lw < tokens_len lw"
  shows "parse_token txt (lw\<lparr>tokens_len := n\<rparr>) st = map_option (cap_step n) (parse_token txt lw st)"
proof -
  obtain t lw0 where al: "prv_alloc_token lw = (Some t, lw0)"
    using assms by (simp add: prv_alloc_token_def)
  with assms have "prv_alloc_token (lw\<lparr>tokens_len := n\<rparr>) = (Some t, lw0\<lparr>tokens_len := n\<rparr>)"
    by (auto simp: prv_alloc_token_def)
  with al show ?thesis
    by (simp add: parse_token_def parse_member_cap)
qed

lemma parse_iter_grow:
  assumes it: "parse_iter txt lw st = Some stp"
    and fits: "next_free_token_pos (step_lw stp) \<le> n"
    and ok: "\<forall>l. stp \<noteq> Goto_ret lwjsonERRMEM l"
  shows "parse_iter txt (lw\<lparr>tokens_len := n\<rparr>) st = Some (cap_step n stp)"
proof (cases "parse_head txt lw st")
  case (Inl s)
  with it show ?thesis by (simp add: parse_iter_def parse_head_cap)
next
  case (Inr st1)
  with it have tk: "parse_token txt lw st1 = Some stp" by (simp add: parse_iter_def)
  from arena_parse_token [OF tk] ok
  have room: "next_free_token_pos lw < tokens_len lw"
    and "arena (step_lw stp) = (tokens_len lw, Suc (next_free_token_pos lw), parsed lw)"
    by (auto split: if_splits)
  with fits have "next_free_token_pos lw < n" by (simp add: arena_def)
  from parse_token_room [OF this room, of "txt" st1] Inr tk show ?thesis
    by (simp add: parse_iter_def parse_head_cap)
qed

lemma parse_loop_grow:
  assumes "parse_loop txt lw st = Some y"
  shows "fst y = lwjsonOK \<and> next_free_token_pos (snd y) \<le> n
     \<longrightarrow> parse_loop txt (lw\<lparr>tokens_len := n\<rparr>) st = Some (fst y, (snd y)\<lparr>tokens_len := n\<rparr>)"
  using assms
proof (induction "txt" lw st y rule: parse_loop.raw_induct)
  case (1 loop tx lw st y)
  show ?case
  proof (cases "chr_at tx (ps_p st) = NUL")
    case True
    with "1.hyps" show ?thesis
      by (simp add: parse_loop_exit upd_tok_cap ret_cap)
  next
    case False
    with "1.hyps" obtain stp where it: "parse_iter tx lw st = Some stp"
      by (cases "parse_iter tx lw st") simp_all
    show ?thesis
    proof (intro impI)
      assume a: "fst y = lwjsonOK \<and> next_free_token_pos (snd y) \<le> n"
      show "parse_loop tx (lw\<lparr>tokens_len := n\<rparr>) st = Some (fst y, (snd y)\<lparr>tokens_len := n\<rparr>)"
      proof (cases stp)
        case (Goto_ret r l)
        with False it "1.hyps" have y: "y = ret r l" by simp
        with a have "r = lwjsonOK" and "next_free_token_pos l \<le> n"
          by (auto simp: ret_def split: if_splits)
        with it Goto_ret
        have "parse_iter tx (lw\<lparr>tokens_len := n\<rparr>) st = Some (Goto_ret r (l\<lparr>tokens_len := n\<rparr>))"
          using parse_iter_grow [OF it, of n] by simp
        with False have "parse_loop tx (lw\<lparr>tokens_len := n\<rparr>) st = Some (ret r (l\<lparr>tokens_len := n\<rparr>))"
          by (rule parse_loop_goto)
        with y show ?thesis by (simp add: ret_cap)
      next
        case (Continue l' st')
        with False it "1.hyps" have run: "loop tx l' st' = Some y" by simp
        from False it Continue "1.prems" have real: "parse_loop tx l' st' = Some y"
          by (simp add: parse_loop_continue)
        from parse_loop_cap [OF real] a have "next_free_token_pos l' \<le> n" by simp
        with it Continue
        have "parse_iter tx (lw\<lparr>tokens_len := n\<rparr>) st = Some (Continue (l'\<lparr>tokens_len := n\<rparr>) st')"
          using parse_iter_grow [OF it, of n] by simp
        with False have "parse_loop tx (lw\<lparr>tokens_len := n\<rparr>) st
            = parse_loop tx (l'\<lparr>tokens_len := n\<rparr>) st'"
          by (rule parse_loop_continue)
        with "1.IH" [OF run real] a show ?thesis by simp
      qed
    qed
  qed
qed (rule assms)

section \<open>Further facts about the parser and the scanners\<close>

lemma parse_loop_flag:
  assumes "parse_loop txt lw st = Some y"
  shows "\<not> parsed lw \<longrightarrow> (parsed (snd y) \<longleftrightarrow> fst y = lwjsonOK)"
  using assms
proof (induction "txt" lw st y rule: parse_loop.raw_induct)
  case (1 loop tx lw st y)
  show ?case
  proof (cases "chr_at tx (ps_p st) = NUL")
    case True
    let ?l = "upd_tok lw (ps_to st) (\<lambda>k. k\<lparr>token_name := None, token_name_len := 0\<rparr>)"
    have "arena ?l = arena lw" by (rule arena_upd_tok)
    with True "1.hyps" show ?thesis by (auto simp: ret_def arena_def split: if_splits)
  next
    case False
    with "1.hyps" obtain stp where it: "parse_iter tx lw st = Some stp"
      by (cases "parse_iter tx lw st") simp_all
    note ar = arena_parse_iter [OF it]
    show ?thesis
    proof (cases stp)
      case (Goto_ret r l)
      with False it "1.hyps" have "y = ret r l" by simp
      with ar Goto_ret show ?thesis by (auto simp: ret_def split: if_splits)
    next
      case (Continue l' st')
      with False it "1.hyps" have run: "loop tx l' st' = Some y" by simp
      from False it Continue "1.prems" have real: "parse_loop tx l' st' = Some y"
        by (simp add: parse_loop_continue)
      from "1.IH" [OF run real] ar Continue show ?thesis by simp
    qed
  qed
qed (rule assms)

text \<open>
  Whatever \<open>lwjson_parse\<close> returns, the parsed flag is set exactly when the status is
  \<open>lwjsonOK\<close>: every error leaves the flag clear.
\<close>

lemma parsed_flag_follows_status:
  assumes "lwjson_parse lw json_str = Some (r, l)"
  shows "parsed l \<longleftrightarrow> r = lwjsonOK"
proof (cases json_str)
  case None
  with assms show ?thesis by (auto simp: lwjson_parse_def)
next
  case (Some js)
  show ?thesis
  proof (cases "chr_at js 0 = NUL")
    case True
    with Some assms show ?thesis by (auto simp: lwjson_parse_def)
  next
    case False
    with Some assms have "parse_loop js
        (lw\<lparr>parsed := False, next_free_token_pos := 0, first_token := zero_token\<rparr>)
        \<lparr>ps_p = 0, ps_to = First, ps_first_check = True, ps_res = lwjsonOK\<rparr> = Some (r, l)"
      by (simp add: lwjson_parse_def)
    from parse_loop_flag [OF this] show ?thesis by simp
  qed
qed

text \<open>A null text and the empty text; the kind of the root; a value with nothing after it.\<close>

lemma null_and_empty_text:
  "map_option fst (lwjson_parse lw None) = Some lwjsonERRJSON"
  "parse_status lw [] = Some lwjsonERRJSON"
  by (simp_all add: lwjson_parse_def parse_status_def chr_at_def)

lemma root_kind:
  "parse_status lw ''{}'' = Some lwjsonOK"
  "ttype (first_token (parse_tree lw ''{}'')) = LWJSON_TYPE_OBJECT"
  "parse_status lw ''[]'' = Some lwjsonOK"
  "ttype (first_token (parse_tree lw ''[]'')) = LWJSON_TYPE_ARRAY"
  by (simp_all add: scan_defs parse_defs)

lemma unclosed_array_after_value:
  "parse_status (fresh 2) ''[1,2'' = Some lwjsonERRJSON"
  by (simp add: scan_defs parse_defs)

text \<open>Numbers and strings that the scanners read as the specification says.\<close>

lemma number_examples:
  "prv_parse_number ''1'' 0
     = \<lparr>n_res = lwjsonOK, n_tout = Some LWJSON_TYPE_NUM_INT, n_fout = None, n_iout = Some 1, n_p = 1\<rparr>"
  "prv_parse_number ''1.0'' 0
     = \<lparr>n_res = lwjsonOK, n_tout = Some LWJSON_TYPE_NUM_REAL, n_fout = Some 1, n_iout = None, n_p = 3\<rparr>"
  "prv_parse_number ''1e2'' 0
     = \<lparr>n_res = lwjsonOK, n_tout = Some LWJSON_TYPE_NUM_REAL, n_fout = Some 100, n_iout = None, n_p = 3\<rparr>"
  "prv_parse_number ''-0.5'' 0
     = \<lparr>n_res = lwjsonOK, n_tout = Some LWJSON_TYPE_NUM_REAL, n_fout = Some (- 1 / 2), n_iout = None,
        n_p = 4\<rparr>"
  "n_res (prv_parse_number ''-'' 0) = lwjsonERRJSON"
  "n_res (prv_parse_number ''1.'' 0) = lwjsonERRJSON"
  "n_res (prv_parse_number ''1e'' 0) = lwjsonERRJSON"
  by (simp_all add: scan_defs eval_nat_numeral)

lemma raw_string_payload:
  "prv_parse_string ([dquote, CHR ''a'', backslash, dquote, CHR ''b'', dquote]) 0
     = \<lparr>s_res = lwjsonOK, s_pout = Some 1, s_poutlen = Some 4, s_p = 6\<rparr>"
  "s_res (prv_parse_string ''a'' 0) = lwjsonERRJSON"
  "s_res (prv_parse_string [dquote, CHR ''a''] 0) = lwjsonERRJSON"
  by (simp_all add: scan_defs)

section \<open>The claims\<close>

text \<open>
  C1.  Claim: \<open>lwjson_parse\<close> returns \<open>lwjsonOK\<close> and sets the parsed flag only when the
  root container's closing delimiter has been consumed; a text whose root is never
  closed, such as \<open>{\<close>, is not a success.  What the code does on the text \<open>{\<close>, for
  every instance: the loop ends at the terminator with \<open>res\<close> still \<open>lwjsonOK\<close>, and the
  function returns \<open>lwjsonOK\<close> with the flag set.
\<close>

theorem unclosed_root_is_accepted:
  "parse_status lw ''{'' = Some lwjsonOK \<and> parsed (parse_tree lw ''{'')"
  by (simp add: scan_defs parse_defs)

text \<open>
  C2.  Claim: \<open>prv_parse_number\<close> accepts exactly the RFC 4627 numbers, so \<open>01\<close> is
  rejected.  What the code does: the test for a leading zero asks for a character that is
  both below \<open>'0'\<close> and above \<open>'9'\<close>, which no character is, so \<open>01\<close> is read as the
  integer 1 and the document \<open>[01]\<close> parses.
\<close>

theorem leading_zero_is_accepted:
  "prv_parse_number ''01'' 0
     = \<lparr>n_res = lwjsonOK, n_tout = Some LWJSON_TYPE_NUM_INT, n_fout = None,
        n_iout = Some 1, n_p = 2\<rparr>
   \<and> parse_status (fresh 1) ''[01]'' = Some lwjsonOK
   \<and> ttype (tokens (parse_tree (fresh 1) ''[01]'') 0) = LWJSON_TYPE_NUM_INT
   \<and> num_int (tokens (parse_tree (fresh 1) ''[01]'') 0) = 1"
  by (simp add: scan_defs parse_defs)

text \<open>
  C3.  Claim: \<open>lwjson_parse\<close> fails with the malformed-input status
  (\<open>lwjsonERRJSON\<close>) on a text of blanks and on a text whose first non-blank character
  is neither \<open>{\<close> nor \<open>[\<close>.  What the code does, for every instance: on the text of
  one blank and on the text \<open>1\<close> it returns \<open>lwjsonERRMEM\<close>, the status of an
  exhausted arena.
\<close>

theorem bad_first_character_is_ERRMEM:
  "parse_status lw '' '' = Some lwjsonERRMEM \<and> parse_status lw ''1'' = Some lwjsonERRMEM"
  by (simp add: scan_defs parse_defs)

text \<open>
  C4.  Claim: \<open>prv_parse_string\<close> ends the string at the first quote that follows an
  even number of backslashes.  What the code does: it looks at the one character before
  the quote, so in \<open>"\\"\<close> the closing quote, which follows two backslashes, is passed
  over, the terminator is reached, and the result is \<open>lwjsonERRJSON\<close>; the document
  \<open>["\\"]\<close> is rejected.
\<close>

theorem escaped_backslash_hides_the_quote:
  "s_res (prv_parse_string escaped_backslash 0) = lwjsonERRJSON
   \<and> parse_status (fresh 1) (''['' @ escaped_backslash @ '']'') = Some lwjsonERRJSON"
  by (simp add: escaped_backslash_def scan_defs parse_defs)

text \<open>
  C5.  Claim: when the array wildcard is the last segment of the path, the search returns
  the first array element itself, so that \<open>find("c.#.")\<close> on the tree of
  \<open>{"a":{"b":1},"c":[10,20,{"d":30}]}\<close> is the token with the value 10.  On that tree
  the array \<open>c\<close> is slot 2 and its first element, slot 3, holds 10, but
  \<open>find("c.#.")\<close> returns null.
\<close>

theorem wildcard_last_counterexample:
  "parse_status (fresh 8) example_doc = Some lwjsonOK
   \<and> lwjson_find example_tree (Some ''c'') = Some (Some (Slot 2))
   \<and> first_child (tok example_tree (Slot 2)) = Some (Slot 3)
   \<and> num_int (tok example_tree (Slot 3)) = 10
   \<and> lwjson_find example_tree (Some ''c.#.'') = Some None"
  by (simp add: tree_eval find_defs)

text \<open>
  C5 as amended: for the wildcard segment \<open>#.\<close> the search runs over the children of an
  array in sibling order and returns the first token that the search with the rest of the
  path finds in one of them; \<open>prv_find\<close> has no case for a wildcard that ends the path,
  so when nothing follows \<open>#.\<close> the search returns not-found.  The children are
  required to form a chain that ends, as they do after a parse.
\<close>

theorem wildcard_segment_search:
  assumes hash: "chr_at path p = CHR ''#''" and dot: "chr_at path (Suc p) = CHR ''.''"
    and chain: "is_chain h (first_child (h parent)) cs"
  shows "prv_find h parent path p =
           (if ttype (h parent) \<noteq> LWJSON_TYPE_ARRAY then Some None
            else first_result (map (\<lambda>t. prv_find h t path (p + 2)) cs))
         \<and> (chr_at path (p + 2) = NUL \<longrightarrow> prv_find h parent path p = Some None)"
proof -
  from hash dot have seg: "prv_create_path_segment path p = Some (p, 1, p + 2, False)"
    by (simp add: prv_create_path_segment_def NUL_def)
  from seg hash have unfold: "prv_find h parent path p =
      (if ttype (h parent) \<noteq> LWJSON_TYPE_ARRAY then Some None
       else child_loop (\<lambda>t. prv_find h t path (p + 2)) h (first_child (h parent)))"
    by (subst prv_find.simps) simp
  with child_loop_chain [OF chain]
  have first: "prv_find h parent path p =
      (if ttype (h parent) \<noteq> LWJSON_TYPE_ARRAY then Some None
       else first_result (map (\<lambda>t. prv_find h t path (p + 2)) cs))"
    by simp
  have "prv_find h parent path p = Some None" if "chr_at path (p + 2) = NUL"
  proof -
    from that have "prv_find h t path (p + 2) = Some None" for t
      by (subst prv_find.simps) (simp add: prv_create_path_segment_def)
    with first show ?thesis by (simp add: first_result_nothing)
  qed
  with first show ?thesis by simp
qed

theorem wildcard_segment_search_witness:
  "chr_at ''c.#.'' 2 = CHR ''#'' \<and> chr_at ''c.#.'' 3 = CHR ''.'' \<and> chr_at ''c.#.'' 4 = NUL
   \<and> ttype (tok example_tree (Slot 2)) = LWJSON_TYPE_ARRAY
   \<and> is_chain (tok example_tree) (first_child (tok example_tree (Slot 2)))
        [Slot 3, Slot 4, Slot 5]
   \<and> prv_find (tok example_tree) (Slot 2) ''c.#.'' 2 = Some None
   \<and> prv_find (tok example_tree) (Slot 2) ''c.#.d'' 2 = Some (Some (Slot 6))
   \<and> num_int (tok example_tree (Slot 6)) = 30"
proof -
  have h1: "chr_at ''c.#.'' 2 = CHR ''#''" and h2: "chr_at ''c.#.'' (Suc 2) = CHR ''.''"
    and h3: "chr_at ''c.#.'' (2 + 2) = NUL"
    by (simp_all add: chr_at_list NUL_def)
  have d1: "chr_at ''c.#.d'' 2 = CHR ''#''" and d2: "chr_at ''c.#.d'' (Suc 2) = CHR ''.''"
    by (simp_all add: chr_at_def)
  have arr: "ttype (tok example_tree (Slot 2)) = LWJSON_TYPE_ARRAY"
    by (simp add: tree_eval)
  have chain: "is_chain (tok example_tree) (first_child (tok example_tree (Slot 2)))
      [Slot 3, Slot 4, Slot 5]"
    by (simp add: tree_eval)
  have inner: "map (\<lambda>t. prv_find (tok example_tree) t ''c.#.d'' (2 + 2)) [Slot 3, Slot 4, Slot 5]
      = [Some None, Some None, Some (Some (Slot 6))]"
    by (simp add: tree_eval find_defs)
  have val: "num_int (tok example_tree (Slot 6)) = 30"
    by (simp add: tree_eval)
  from wildcard_segment_search [OF h1 h2 chain, THEN conjunct2] h3
  have last: "prv_find (tok example_tree) (Slot 2) ''c.#.'' 2 = Some None"
    by blast
  from wildcard_segment_search [OF d1 d2 chain, THEN conjunct1] arr inner
  have more: "prv_find (tok example_tree) (Slot 2) ''c.#.d'' 2 = Some (Some (Slot 6))"
    by simp
  from h1 h2 h3 arr chain last more val show ?thesis by simp
qed

text \<open>
  C6.  Claim: for a literal segment the search takes the first child whose name matches,
  returns it if the segment is the last one and otherwise recurses into it.  On the tree
  of \<open>{"a":{"x":1},"a":{"b":2}}\<close> the children of the root are the slots 0 and 2, both
  named \<open>a\<close>.  The search for \<open>a.b\<close> worded as above fails, since the first \<open>a\<close> has
  no \<open>b\<close>; \<open>lwjson_find\<close> returns slot 3, the \<open>b\<close> of the second \<open>a\<close>.
\<close>

theorem first_match_only_counterexample:
  "parse_status (fresh 8) dup_doc = Some lwjsonOK
   \<and> is_chain (tok dup_tree) (first_child (tok dup_tree First)) [Slot 0, Slot 2]
   \<and> prv_create_path_segment ''a.b'' 0 = Some (0, 1, 2, False)
   \<and> first_match_search (tok dup_tree) [Slot 0, Slot 2] ''a.b'' 0 1 2 False = Some None
   \<and> lwjson_find dup_tree (Some ''a.b'') = Some (Some (Slot 3))
   \<and> num_int (tok dup_tree (Slot 3)) = 2"
  by (simp add: first_match_search_def tree_eval find_defs)

text \<open>
  C6 as amended: for a literal segment the current token must be an object, else the
  result is not-found.  If the segment is the last one, the result is the first child in
  sibling order whose name has the segment's length and content, and not-found when there
  is none.  Otherwise the children with a matching name are searched in sibling order with
  the rest of the path, and the result is the first token found in one of them: when the
  search inside a matching child fails, the scan goes on to the next matching child.
  The children are required to form a chain that ends, as they do after a parse.
\<close>

theorem literal_segment_search:
  assumes seg: "prv_create_path_segment path p = Some (segment, segment_len, p', is_last)"
    and lit: "\<not> (chr_at path segment = CHR ''#'' \<and> segment_len = 1)"
    and chain: "is_chain h (first_child (h parent)) cs"
  shows "prv_find h parent path p =
     (if ttype (h parent) \<noteq> LWJSON_TYPE_OBJECT then Some None
      else if is_last
      then Some (find (\<lambda>t. name_matches (h t) path segment segment_len) cs)
      else first_result (map (\<lambda>t. prv_find h t path p')
                           (filter (\<lambda>t. name_matches (h t) path segment segment_len) cs)))"
proof -
  let ?m = "\<lambda>t. name_matches (h t) path segment segment_len"
  from seg lit have unfold: "prv_find h parent path p =
      (if ttype (h parent) \<noteq> LWJSON_TYPE_OBJECT then Some None
       else child_loop (\<lambda>t. if ?m t then (if is_last then Some (Some t) else prv_find h t path p')
                             else Some None) h (first_child (h parent)))"
    by (subst prv_find.simps) auto
  show ?thesis
  proof (cases is_last)
    case True
    with unfold child_loop_chain [OF chain] first_result_find [of ?m cs]
    show ?thesis by (simp cong: if_cong)
  next
    case False
    with unfold child_loop_chain [OF chain]
        first_result_filter [of ?m "\<lambda>t. prv_find h t path p'" cs]
    show ?thesis by (simp cong: if_cong)
  qed
qed

theorem literal_segment_search_witness:
  "prv_create_path_segment ''a.b'' 0 = Some (0, 1, 2, False)
   \<and> prv_create_path_segment ''a'' 0 = Some (0, 1, 2, True)
   \<and> is_chain (tok example_tree) (first_child (tok example_tree First)) [Slot 0, Slot 2]
   \<and> prv_find (tok example_tree) First ''a.b'' 0 = Some (Some (Slot 1))
   \<and> ttype (tok example_tree (Slot 1)) = LWJSON_TYPE_NUM_INT
   \<and> num_int (tok example_tree (Slot 1)) = 1
   \<and> is_chain (tok dup_tree) (first_child (tok dup_tree First)) [Slot 0, Slot 2]
   \<and> prv_find (tok dup_tree) First ''a'' 0 = Some (Some (Slot 0))
   \<and> prv_find (tok dup_tree) First ''a.b'' 0 = Some (Some (Slot 3))"
proof -
  have s1: "prv_create_path_segment ''a.b'' 0 = Some (0, 1, 2, False)"
    and s2: "prv_create_path_segment ''a'' 0 = Some (0, 1, 2, True)"
    by (simp_all add: tree_eval find_defs)
  have l1: "\<not> (chr_at ''a.b'' 0 = CHR ''#'' \<and> (1::nat) = 1)"
    and l2: "\<not> (chr_at ''a'' 0 = CHR ''#'' \<and> (1::nat) = 1)"
    by (simp_all add: chr_at_def)
  have c1: "is_chain (tok example_tree) (first_child (tok example_tree First)) [Slot 0, Slot 2]"
    by (simp add: tree_eval)
  have c2: "is_chain (tok dup_tree) (first_child (tok dup_tree First)) [Slot 0, Slot 2]"
    by (simp add: tree_eval)
  have o1: "ttype (tok example_tree First) = LWJSON_TYPE_OBJECT"
    and o2: "ttype (tok dup_tree First) = LWJSON_TYPE_OBJECT"
    by (simp_all add: tree_eval)
  have m1: "filter (\<lambda>t. name_matches (tok example_tree t) ''a.b'' 0 1) [Slot 0, Slot 2] = [Slot 0]"
    by (simp add: tree_eval find_defs)
  have r1: "prv_find (tok example_tree) (Slot 0) ''a.b'' 2 = Some (Some (Slot 1))"
    by (simp add: tree_eval find_defs)
  have v1: "ttype (tok example_tree (Slot 1)) = LWJSON_TYPE_NUM_INT"
    and v2: "num_int (tok example_tree (Slot 1)) = 1"
    by (simp_all add: tree_eval)
  have m2: "find (\<lambda>t. name_matches (tok dup_tree t) ''a'' 0 1) [Slot 0, Slot 2] = Some (Slot 0)"
    by (simp add: tree_eval find_defs)
  have m3: "filter (\<lambda>t. name_matches (tok dup_tree t) ''a.b'' 0 1) [Slot 0, Slot 2]
      = [Slot 0, Slot 2]"
    by (simp add: tree_eval find_defs)
  have r3: "map (\<lambda>t. prv_find (tok dup_tree) t ''a.b'' 2) [Slot 0, Slot 2]
      = [Some None, Some (Some (Slot 3))]"
    by (simp add: tree_eval find_defs)
  from literal_segment_search [OF s1 l1 c1] o1 m1 r1
  have f1: "prv_find (tok example_tree) First ''a.b'' 0 = Some (Some (Slot 1))"
    by simp
  from literal_segment_search [OF s2 l2 c2] o2 m2
  have f2: "prv_find (tok dup_tree) First ''a'' 0 = Some (Some (Slot 0))"
    by simp
  from literal_segment_search [OF s1 l1 c2] o2 m3 r3
  have f3: "prv_find (tok dup_tree) First ''a.b'' 0 = Some (Some (Slot 3))"
    by simp
  from s1 s2 c1 c2 f1 f2 f3 v1 v2 show ?thesis by simp
qed

text \<open>
  C7.  A document that needs more tokens than the arena holds is one that parses with
  \<open>lwjsonOK\<close> on some capacity and then has used \<open>next_free_token_pos\<close> tokens.  On the
  same memory with any smaller capacity \<open>lwjson_parse\<close> returns \<open>lwjsonERRMEM\<close> and
  leaves the parsed flag clear; with any capacity that is enough it returns \<open>lwjsonOK\<close>
  with the same tree.  \<open>prv_alloc_token\<close> hands out the slot at the cursor, which lies
  inside the arena, and moves the cursor up by one; no iteration of the loop moves the
  cursor back, so no slot is handed out twice in one parse.
\<close>

theorem arena_exhaustion_is_reported:
  assumes ok: "lwjson_parse lw json_str = Some (lwjsonOK, lw')"
  shows "next_free_token_pos lw' \<le> tokens_len lw
       \<and> (\<forall>n. n < next_free_token_pos lw'
              \<longrightarrow> (\<exists>l. lwjson_parse (lw\<lparr>tokens_len := n\<rparr>) json_str = Some (lwjsonERRMEM, l)
                        \<and> \<not> parsed l))
       \<and> (\<forall>n. next_free_token_pos lw' \<le> n
              \<longrightarrow> lwjson_parse (lw\<lparr>tokens_len := n\<rparr>) json_str
                    = Some (lwjsonOK, lw'\<lparr>tokens_len := n\<rparr>))
       \<and> (prv_alloc_token a = (Some t, b)
              \<longrightarrow> t = Slot (next_free_token_pos a) \<and> next_free_token_pos a < tokens_len a
                \<and> next_free_token_pos b = Suc (next_free_token_pos a)
                \<and> tokens_len b = tokens_len a)
       \<and> (parse_iter tx a st = Some stp
              \<longrightarrow> next_free_token_pos a \<le> next_free_token_pos (step_lw stp)
                \<and> tokens_len (step_lw stp) = tokens_len a)"
proof -
  let ?lw0 = "lw\<lparr>parsed := False, next_free_token_pos := 0, first_token := zero_token\<rparr>"
  let ?st0 = "\<lparr>ps_p = 0, ps_to = First, ps_first_check = True, ps_res = lwjsonOK\<rparr>"
  from ok obtain js where js: "json_str = Some js" and nonempty: "chr_at js 0 \<noteq> NUL"
    and run: "parse_loop js ?lw0 ?st0 = Some (lwjsonOK, lw')"
    by (cases json_str) (auto simp: lwjson_parse_def Let_def split: if_splits)
  have reorder: "(lw\<lparr>tokens_len := n\<rparr>)\<lparr>parsed := False, next_free_token_pos := 0,
      first_token := zero_token\<rparr> = ?lw0\<lparr>tokens_len := n\<rparr>" for n
    by auto
  have start: "lwjson_parse (lw\<lparr>tokens_len := n\<rparr>) json_str
      = parse_loop js (?lw0\<lparr>tokens_len := n\<rparr>) ?st0" for n
  proof -
    from js nonempty have "lwjson_parse (lw\<lparr>tokens_len := n\<rparr>) json_str
        = parse_loop js ((lw\<lparr>tokens_len := n\<rparr>)\<lparr>parsed := False, next_free_token_pos := 0,
            first_token := zero_token\<rparr>) ?st0"
      by (simp add: lwjson_parse_def Let_def)
    then show ?thesis unfolding reorder .
  qed
  note cap = parse_loop_cap [OF run]
  from cap have within: "next_free_token_pos lw' \<le> tokens_len lw" by simp
  have small: "\<exists>l. lwjson_parse (lw\<lparr>tokens_len := n\<rparr>) json_str = Some (lwjsonERRMEM, l) \<and> \<not> parsed l"
    if "n < next_free_token_pos lw'" for n
  proof -
    from that within have "n \<le> tokens_len lw" by simp
    with cap that show ?thesis by (simp add: start)
  qed
  have large: "lwjson_parse (lw\<lparr>tokens_len := n\<rparr>) json_str = Some (lwjsonOK, lw'\<lparr>tokens_len := n\<rparr>)"
    if "next_free_token_pos lw' \<le> n" for n
    using parse_loop_grow [OF run, of n] that by (simp add: start)
  have alloc: "prv_alloc_token a = (Some t, b)
      \<longrightarrow> t = Slot (next_free_token_pos a) \<and> next_free_token_pos a < tokens_len a
        \<and> next_free_token_pos b = Suc (next_free_token_pos a) \<and> tokens_len b = tokens_len a"
    by (auto simp: prv_alloc_token_def split: if_splits)
  have iter: "parse_iter tx a st = Some stp
      \<longrightarrow> next_free_token_pos a \<le> next_free_token_pos (step_lw stp)
        \<and> tokens_len (step_lw stp) = tokens_len a"
    using arena_parse_iter [of tx a st stp] by simp
  from within small large alloc iter show ?thesis by blast
qed

theorem arena_exhaustion_is_reported_witness:
  "lwjson_parse (fresh 2) (Some ''[[[]]]'') = Some (lwjsonOK, parse_tree (fresh 2) ''[[[]]]'')
   \<and> next_free_token_pos (parse_tree (fresh 2) ''[[[]]]'') = 2
   \<and> parse_status ((fresh 2)\<lparr>tokens_len := 1\<rparr>) ''[[[]]]'' = Some lwjsonERRMEM
   \<and> \<not> parsed (parse_tree ((fresh 2)\<lparr>tokens_len := 1\<rparr>) ''[[[]]]'')
   \<and> parse_status ((fresh 2)\<lparr>tokens_len := 5\<rparr>) ''[[[]]]'' = Some lwjsonOK
   \<and> parse_status ((fresh 2)\<lparr>tokens_len := 1\<rparr>) ''[[]]'' = Some lwjsonOK
   \<and> prv_alloc_token (fresh 2) = (Some (Slot 0), snd (prv_alloc_token (fresh 2)))
   \<and> next_free_token_pos (snd (prv_alloc_token (fresh 2))) = 1
   \<and> parse_iter ''{1}'' (fresh 2)
         \<lparr>ps_p = 1, ps_to = First, ps_first_check = False, ps_res = lwjsonOK\<rparr>
       = Some (Goto_ret lwjsonERRJSON (snd (prv_alloc_token (fresh 2))))
   \<and> next_free_token_pos (fresh 2)
       \<le> next_free_token_pos (step_lw (Goto_ret lwjsonERRJSON (snd (prv_alloc_token (fresh 2)))))"
proof -
  have "parse_status (fresh 2) ''[[[]]]'' = Some lwjsonOK"
    by (simp add: scan_defs parse_defs)
  then have ok: "lwjson_parse (fresh 2) (Some ''[[[]]]'')
      = Some (lwjsonOK, parse_tree (fresh 2) ''[[[]]]'')"
    by (rule parse_status_tree)
  have used: "next_free_token_pos (parse_tree (fresh 2) ''[[[]]]'') = 2"
    by (simp add: scan_defs parse_defs)
  have al: "prv_alloc_token (fresh 2) = (Some (Slot 0), snd (prv_alloc_token (fresh 2)))"
    by (simp add: prv_alloc_token_def fresh_def lwjson_init_def)
  have it: "parse_iter ''{1}'' (fresh 2)
        \<lparr>ps_p = 1, ps_to = First, ps_first_check = False, ps_res = lwjsonOK\<rparr>
      = Some (Goto_ret lwjsonERRJSON (snd (prv_alloc_token (fresh 2))))"
    by (simp add: scan_defs parse_defs)
  note inst = arena_exhaustion_is_reported [OF ok, where a = "fresh 2" and t = "Slot 0"
      and b = "snd (prv_alloc_token (fresh 2))" and tx = "''{1}''"
      and st = "\<lparr>ps_p = 1, ps_to = First, ps_first_check = False, ps_res = lwjsonOK\<rparr>"
      and stp = "Goto_ret lwjsonERRJSON (snd (prv_alloc_token (fresh 2)))"]
  from inst used have "\<exists>l. lwjson_parse ((fresh 2)\<lparr>tokens_len := 1\<rparr>) (Some ''[[[]]]'')
      = Some (lwjsonERRMEM, l) \<and> \<not> parsed l"
    by simp
  then have small: "parse_status ((fresh 2)\<lparr>tokens_len := 1\<rparr>) ''[[[]]]'' = Some lwjsonERRMEM"
    and flag: "\<not> parsed (parse_tree ((fresh 2)\<lparr>tokens_len := 1\<rparr>) ''[[[]]]'')"
    by (auto simp: parse_status_def parse_tree_def)
  from inst used have "lwjson_parse ((fresh 2)\<lparr>tokens_len := 5\<rparr>) (Some ''[[[]]]'')
      = Some (lwjsonOK, (parse_tree (fresh 2) ''[[[]]]'')\<lparr>tokens_len := 5\<rparr>)"
    by simp
  then have large: "parse_status ((fresh 2)\<lparr>tokens_len := 5\<rparr>) ''[[[]]]'' = Some lwjsonOK"
    by (simp add: parse_status_def)
  have less: "parse_status ((fresh 2)\<lparr>tokens_len := 1\<rparr>) ''[[]]'' = Some lwjsonOK"
    by (simp add: scan_defs parse_defs)
  from inst al have "next_free_token_pos (snd (prv_alloc_token (fresh 2)))
      = Suc (next_free_token_pos (fresh 2))"
    by simp
  then have cursor: "next_free_token_pos (snd (prv_alloc_token (fresh 2))) = 1"
    by (simp add: fresh_def lwjson_init_def)
  from inst it have mono: "next_free_token_pos (fresh 2)
      \<le> next_free_token_pos (step_lw (Goto_ret lwjsonERRJSON (snd (prv_alloc_token (fresh 2)))))"
    by simp
  from ok used small flag large less al cursor it mono show ?thesis by simp
qed

text \<open>
  C8.  Claim: \<open>lwjson_reset\<close> zeroes all token slots, rewinds the allocation cursor
  \<open>next_free_token_pos\<close> to the start and leaves \<open>tokens_len\<close> unchanged.  The body of
  \<open>lwjson_reset\<close> is one \<open>memset\<close> over the token array; the cursor is not touched.
  After parsing \<open>[1]\<close> the cursor is 1, and it is still 1 after the reset.
\<close>

theorem reset_leaves_cursor_counterexample:
  "parse_status (fresh 2) ''[1]'' = Some lwjsonOK
   \<and> next_free_token_pos (parse_tree (fresh 2) ''[1]'') = 1
   \<and> next_free_token_pos (snd (lwjson_reset (parse_tree (fresh 2) ''[1]''))) = 1
   \<and> next_free_token_pos (snd (lwjson_reset (parse_tree (fresh 2) ''[1]''))) \<noteq> 0"
  by (simp add: lwjson_reset_def scan_defs parse_defs)

text \<open>
  C8 as amended: \<open>lwjson_reset\<close> returns \<open>lwjsonOK\<close>, zeroes every slot of the arena and
  leaves \<open>tokens_len\<close> and the cursor \<open>next_free_token_pos\<close> as they were.  The cursor is
  rewound by \<open>lwjson_parse\<close> itself: what a parse returns does not depend on the
  cursor it is entered with.
\<close>

theorem lwjson_reset_effect:
  "fst (lwjson_reset lw) = lwjsonOK
   \<and> (\<forall>i. i < tokens_len lw \<longrightarrow> tokens (snd (lwjson_reset lw)) i = zero_token)
   \<and> tokens_len (snd (lwjson_reset lw)) = tokens_len lw
   \<and> next_free_token_pos (snd (lwjson_reset lw)) = next_free_token_pos lw
   \<and> lwjson_parse (snd (lwjson_reset lw)) json_str
       = lwjson_parse ((snd (lwjson_reset lw))\<lparr>next_free_token_pos := 0\<rparr>) json_str"
  by (simp add: lwjson_reset_def lwjson_parse_def)

theorem lwjson_reset_effect_witness:
  "(0::nat) < tokens_len (parse_tree (fresh 2) ''[1]'')
   \<and> tokens (parse_tree (fresh 2) ''[1]'') 0 \<noteq> zero_token
   \<and> tokens (snd (lwjson_reset (parse_tree (fresh 2) ''[1]''))) 0 = zero_token
   \<and> tokens_len (snd (lwjson_reset (parse_tree (fresh 2) ''[1]''))) = 2
   \<and> next_free_token_pos (snd (lwjson_reset (parse_tree (fresh 2) ''[1]''))) = 1"
proof -
  have len: "tokens_len (parse_tree (fresh 2) ''[1]'') = 2"
    by (simp add: scan_defs parse_defs)
  have cur: "next_free_token_pos (parse_tree (fresh 2) ''[1]'') = 1"
    by (simp add: scan_defs parse_defs)
  have used: "ttype (tokens (parse_tree (fresh 2) ''[1]'') 0) = LWJSON_TYPE_NUM_INT"
    by (simp add: scan_defs parse_defs)
  have "ttype zero_token = LWJSON_TYPE_STRING"
    by (simp add: zero_token_def)
  with used have ne: "tokens (parse_tree (fresh 2) ''[1]'') 0 \<noteq> zero_token"
    by auto
  from lwjson_reset_effect [of "parse_tree (fresh 2) ''[1]''"] len cur ne
  show ?thesis by simp
qed

text \<open>
  C9.  Claim: after every successful parse no token's \<open>next\<close> field refers to its
  parent container.  What the code does on the text \<open>[[\<close>: it returns \<open>lwjsonOK\<close>
  with the flag set, the root's first child is slot 0, and the \<open>next\<close> field of slot 0
  still holds the root, its parent.
\<close>

theorem parent_link_is_left_behind:
  "parse_status (fresh 1) ''[['' = Some lwjsonOK
   \<and> parsed (parse_tree (fresh 1) ''[['')
   \<and> first_child (first_token (parse_tree (fresh 1) ''[['')) = Some (Slot 0)
   \<and> nxt (tokens (parse_tree (fresh 1) ''[['') 0) = Some First"
  by (simp add: scan_defs parse_defs)

text \<open>
  C10.  An iteration of the loop that, after the first check and the blanks, stands on a
  comma does nothing but step over it: no test asks whether a value came before or
  comes after.  So \<open>[,1]\<close>, \<open>[1,,2]\<close> and \<open>[1,]\<close> parse with \<open>lwjsonOK\<close> on every
  instance with room for their tokens.
\<close>

theorem commas_are_skipped:
  "(\<not> ps_first_check st \<and> chr_at txt (snd (prv_skip_blank txt (ps_p st))) = CHR '',''
      \<longrightarrow> parse_iter txt lw st
           = Some (Continue lw (st\<lparr>ps_p := Suc (snd (prv_skip_blank txt (ps_p st))),
                                   ps_res := lwjsonOK\<rparr>)))
   \<and> (1 \<le> tokens_len lw
      \<longrightarrow> parse_status lw ''[,1]'' = Some lwjsonOK \<and> parsed (parse_tree lw ''[,1]'')
        \<and> parse_status lw ''[1,]'' = Some lwjsonOK \<and> parsed (parse_tree lw ''[1,]''))
   \<and> (2 \<le> tokens_len lw
      \<longrightarrow> parse_status lw ''[1,,2]'' = Some lwjsonOK \<and> parsed (parse_tree lw ''[1,,2]''))"
proof (intro conjI impI)
  assume a: "\<not> ps_first_check st \<and> chr_at txt (snd (prv_skip_blank txt (ps_p st))) = CHR '',''"
  define p1 where "p1 = snd (prv_skip_blank txt (ps_p st))"
  have eq: "prv_skip_blank txt (ps_p st) = (lwjsonOK, p1)"
    by (simp add: p1_def prv_skip_blank_def Let_def)
  from a have c: "chr_at txt p1 = CHR '',''" "\<not> ps_first_check st"
    by (simp_all add: p1_def)
  have "parse_iter txt lw st = Some (Continue lw (st\<lparr>ps_p := Suc p1, ps_res := lwjsonOK\<rparr>))"
    by (simp add: parse_iter_def parse_head_def Let_def eq c)
  then show "parse_iter txt lw st
      = Some (Continue lw (st\<lparr>ps_p := Suc (snd (prv_skip_blank txt (ps_p st))), ps_res := lwjsonOK\<rparr>))"
    by (simp add: p1_def)
next
  assume "1 \<le> tokens_len lw"
  then show "parse_status lw ''[,1]'' = Some lwjsonOK"
    and "parsed (parse_tree lw ''[,1]'')"
    and "parse_status lw ''[1,]'' = Some lwjsonOK"
    and "parsed (parse_tree lw ''[1,]'')"
    by (simp_all add: scan_defs parse_defs)
next
  assume "2 \<le> tokens_len lw"
  then show "parse_status lw ''[1,,2]'' = Some lwjsonOK"
    and "parsed (parse_tree lw ''[1,,2]'')"
    by (simp_all add: scan_defs parse_defs)
qed

theorem commas_are_skipped_witness:
  "parse_iter ''[,1]'' (fresh 2)
       \<lparr>ps_p = 1, ps_to = First, ps_first_check = False, ps_res = lwjsonOK\<rparr>
     = Some (Continue (fresh 2)
               \<lparr>ps_p = 2, ps_to = First, ps_first_check = False, ps_res = lwjsonOK\<rparr>)
   \<and> parse_status (fresh 2) ''[,1]'' = Some lwjsonOK
   \<and> parse_status (fresh 2) ''[1,]'' = Some lwjsonOK
   \<and> parse_status (fresh 2) ''[1,,2]'' = Some lwjsonOK
   \<and> parsed (parse_tree (fresh 2) ''[1,,2]'')"
proof -
  have len: "tokens_len (fresh 2) = 2"
    by (simp add: fresh_def lwjson_init_def)
  have blank: "snd (prv_skip_blank ''[,1]'' 1) = 1"
    by (simp add: scan_defs)
  from commas_are_skipped [of "\<lparr>ps_p = 1, ps_to = First,
      ps_first_check = False, ps_res = lwjsonOK\<rparr>" "''[,1]''" "fresh 2"] len blank
  show ?thesis by (simp add: chr_at_def)
qed

end
